theory Spec2Isabelle
  imports Complex_Main
begin

section \<open>Image domain: aspect ratio of a size input\<close>






text \<open>Template-literal conversion of an integer to its decimal string.\<close>

definition digit_char :: "int \<Rightarrow> char" where
  "digit_char d = char_of (48 + d)"

function digits :: "int \<Rightarrow> string" where
  "digits n =
     (if n < 10 then [digit_char n]
      else digits (n div 10) @ [digit_char (n mod 10)])"
  by pat_completeness auto
termination
  by (relation "measure nat") auto

declare digits.simps [simp del]

definition number_to_string :: "int \<Rightarrow> string" where
  "number_to_string i = (if i < 0 then CHR ''-'' # digits (- i) else digits i)"


section \<open>File names of persisted videos\<close>

text \<open>
  \<^verbatim>\<open>src/app/page.tsx\<close>, \<open>sanitizeFileSegment\<close> and \<open>buildVideoFileName\<close>. Strings are lists of
  8-bit characters. On those, \<open>toLowerCase\<close> changes the letters \<open>A\<close> to \<open>Z\<close> only, as far as the
  regular expression that follows can tell: every other character is outside \<open>[a-z0-9]\<close>
  before and after.
\<close>

definition toLowerCase_char :: "char \<Rightarrow> char" where
  "toLowerCase_char c =
     (if c \<in> set ''ABCDEFGHIJKLMNOPQRSTUVWXYZ'' then char_of (of_char c + (32::nat)) else c)"

definition toLowerCase :: "string \<Rightarrow> string" where
  "toLowerCase s = map toLowerCase_char s"

definition is_lower_alnum :: "char \<Rightarrow> bool" where
  "is_lower_alnum c = (c \<in> set ''abcdefghijklmnopqrstuvwxyz0123456789'')"

text \<open>\<open>.replace(/[^a-z0-9]+/g, "-")\<close>: every maximal run of other characters becomes one dash.\<close>

function replace_runs :: "string \<Rightarrow> string" where
  "replace_runs [] = []"
| "replace_runs (c # cs) =
     (if is_lower_alnum c then c # replace_runs cs
      else CHR ''-'' # replace_runs (dropWhile (\<lambda>d. \<not> is_lower_alnum d) cs))"
  by pat_completeness auto
termination
  by (relation "measure length") (auto simp: length_dropWhile_le less_Suc_eq_le)

text \<open>\<open>.replace(/^-+|-+$/g, "")\<close>: the dashes at both ends are removed.\<close>

definition trim_dashes :: "string \<Rightarrow> string" where
  "trim_dashes s =
     rev (dropWhile (\<lambda>c. c = CHR ''-'') (rev (dropWhile (\<lambda>c. c = CHR ''-'') s)))"

definition sanitizeFileSegment :: "string \<Rightarrow> string" where
  "sanitizeFileSegment v = take 40 (trim_dashes (replace_runs (toLowerCase v)))"

text \<open>\<open>a || b\<close> on strings: the empty string is falsy.\<close>

definition or_else :: "string \<Rightarrow> string \<Rightarrow> string" where
  "or_else a b = (if a = [] then b else a)"

text \<open>\<open>s.slice(-6)\<close>: the last six characters, or all of a shorter string.\<close>

definition slice_last6 :: "string \<Rightarrow> string" where
  "slice_last6 s = drop (length s - 6) s"

text \<open>
  \<open>buildVideoFileName\<close> reads the fields \<open>id\<close>, \<open>modelId\<close>, \<open>createdAt\<close> and \<open>storagePath\<close> of
  its argument. \<open>formatCompactTimestamp\<close> lives in \<^verbatim>\<open>src/lib/time\<close>, which is not part of the
  sources at hand: \<open>stamp\<close> stands for \<open>formatCompactTimestamp (new Date createdAt)\<close> and is a
  parameter.
\<close>

record file_name_fields =
  fn_id :: string
  fn_modelId :: string
  fn_createdAt :: int
  fn_storagePath :: string

definition baseSegment :: "file_name_fields \<Rightarrow> string" where
  "baseSegment job =
     or_else (sanitizeFileSegment (or_else (fn_storagePath job) ''downloads'')) ''downloads''"

definition modelSegment :: "file_name_fields \<Rightarrow> string" where
  "modelSegment job = or_else (sanitizeFileSegment (fn_modelId job)) ''model''"

definition idSegment :: "file_name_fields \<Rightarrow> string" where
  "idSegment job =
     or_else (slice_last6 (sanitizeFileSegment (fn_id job))) (slice_last6 (fn_id job))"

definition buildVideoFileName :: "(int \<Rightarrow> string) \<Rightarrow> file_name_fields \<Rightarrow> string" where
  "buildVideoFileName stamp job =
     baseSegment job @ ''-'' @ modelSegment job @ ''-'' @ stamp (fn_createdAt job)
       @ ''-'' @ idSegment job @ ''.mp4''"


section \<open>Jobs\<close>

text \<open>
  \<^verbatim>\<open>src/app/page.tsx\<close>. An optional field is an \<open>option\<close>, \<open>None\<close> for \<open>undefined\<close> (and for the
  \<open>null\<close> of \<open>preview\<close>). Numbers are integers, except \<open>cfg_scale\<close>. The field \<open>id\<close> is written
  \<open>id'\<close>, and the fields of the payload that share a name with a field of the job carry the
  prefix \<open>p_\<close>.
\<close>

datatype JobStatus = Uploading | Queued | Running | Success | Error

record UnifiedPayload =
  p_modelId :: string
  p_prompt :: string
  start_frame_url :: string
  end_frame_url :: "string option"
  duration :: "(string + int) option"
  aspect_ratio :: "string option"
  resolution :: "string option"
  fps :: "int option"
  generate_audio :: "bool option"
  negative_prompt :: "string option"
  cfg_scale :: "rat option"
  prompt_optimizer :: "bool option"

text \<open>A value of type \<open>unknown\<close>, as \<open>JSON.parse\<close> or a provider returns it.\<close>

datatype json =
  JNull | JBool bool | JNum int | JStr string | JArr "json list" | JObj "(string \<times> json) list"

record Job =
  id' :: string
  modelId :: string
  prompt :: string
  status :: JobStatus
  createdAt :: int
  attempts :: int
  payload :: "UnifiedPayload option"
  videoUrl :: "string option"
  error :: "string option"
  raw :: "json option"
  preview :: "string option"
  events :: "string list"
  storagePath :: string
  localKey :: "string option"
  localUrl :: "string option"
  saving :: "bool option"
  saved :: "bool option"
  saveError :: "string option"

definition MAX_CONCURRENT_JOBS :: nat where
  "MAX_CONCURRENT_JOBS = 2"

definition VIDEO_JOBS_STORAGE_KEY :: string where
  "VIDEO_JOBS_STORAGE_KEY = ''video-job-history''"

text \<open>
  \<open>createId\<close>: the prefix, \<open>Date.now()\<close> and six base-36 digits of \<open>Math.random()\<close>. The clock
  and the random digits come from the environment.
\<close>

definition createId :: "string \<Rightarrow> int \<Rightarrow> string \<Rightarrow> string" where
  "createId prefix now random36 = prefix @ ''_'' @ number_to_string now @ ''_'' @ random36"

text \<open>Truthiness of an optional string: defined and not empty.\<close>

definition truthy :: "string option \<Rightarrow> bool" where
  "truthy v = (case v of None \<Rightarrow> False | Some s \<Rightarrow> s \<noteq> [])"

section \<open>Rehydration and the persisted index\<close>

text \<open>
  What \<open>loadStoredJobs\<close> takes from the browser: whether \<open>window\<close> exists, \<open>JSON.parse\<close>
  (\<open>None\<close> when it throws), \<open>JSON.stringify\<close>, the constant \<open>DEFAULT_MODEL_ID\<close> of
  \<^verbatim>\<open>src/lib/models\<close>, and, for the entry at each position of the index, the clock readings and
  random digits that \<open>createId\<close> and \<open>Date.now()\<close> would yield there.
\<close>

record Browser =
  has_window :: bool
  JSON_parse :: "string \<Rightarrow> json option"
  JSON_stringify :: "json \<Rightarrow> string"
  DEFAULT_MODEL_ID :: string
  clock_id :: "nat \<Rightarrow> int"
  random36 :: "nat \<Rightarrow> string"
  clock :: "nat \<Rightarrow> int"

type_synonym localStorage = "string \<rightharpoonup> string"

text \<open>
  \<open>entry.k\<close> for a parsed value: defined on objects only. \<open>JSON.parse\<close> keeps one value for
  each key, so the first binding is the binding.
\<close>

definition get_prop :: "json \<Rightarrow> string \<Rightarrow> json option" where
  "get_prop v k = (case v of JObj kvs \<Rightarrow> map_of kvs k | _ \<Rightarrow> None)"

text \<open>\<open>typeof v === "string" ? v : undefined\<close>\<close>

definition string_of :: "json option \<Rightarrow> string option" where
  "string_of v = (case v of Some (JStr s) \<Rightarrow> Some s | _ \<Rightarrow> None)"

definition number_of :: "json option \<Rightarrow> int option" where
  "number_of v = (case v of Some (JNum n) \<Rightarrow> Some n | _ \<Rightarrow> None)"

text \<open>\<open>entry && typeof entry === "object"\<close>: objects and arrays, not \<open>null\<close>.\<close>

definition is_object :: "json \<Rightarrow> bool" where
  "is_object v = (case v of JObj _ \<Rightarrow> True | JArr _ \<Rightarrow> True | _ \<Rightarrow> False)"

text \<open>\<open>xs.slice(-10)\<close>\<close>

definition slice_last10 :: "'a list \<Rightarrow> 'a list" where
  "slice_last10 xs = drop (length xs - 10) xs"

definition event_string :: "Browser \<Rightarrow> json \<Rightarrow> string" where
  "event_string env event = (case event of JStr s \<Rightarrow> s | _ \<Rightarrow> JSON_stringify env event)"

definition stored_events :: "Browser \<Rightarrow> json option \<Rightarrow> string list" where
  "stored_events env v =
     (case v of Some (JArr es) \<Rightarrow> slice_last10 (map (event_string env) es) | _ \<Rightarrow> [])"

text \<open>The callback of \<open>data.map\<close> in \<open>loadStoredJobs\<close>; \<open>None\<close> is its \<open>null\<close>.\<close>

definition rehydrate :: "Browser \<Rightarrow> nat \<Rightarrow> json \<Rightarrow> Job option" where
  "rehydrate env k entry =
     (if \<not> is_object entry then None
      else let url = string_of (get_prop entry ''localUrl'');
               key = string_of (get_prop entry ''localKey'')
           in if \<not> truthy url \<or> \<not> truthy key then None
              else Some \<lparr>
                id' = (case string_of (get_prop entry ''id'') of
                         Some s \<Rightarrow> s
                       | None \<Rightarrow> createId ''job'' (clock_id env k) (random36 env k)),
                modelId = (case string_of (get_prop entry ''modelId'') of
                         Some s \<Rightarrow> s | None \<Rightarrow> DEFAULT_MODEL_ID env),
                prompt = (case string_of (get_prop entry ''prompt'') of
                         Some s \<Rightarrow> s | None \<Rightarrow> []),
                status = Success,
                createdAt = (case number_of (get_prop entry ''createdAt'') of
                         Some n \<Rightarrow> n | None \<Rightarrow> clock env k),
                attempts = 1,
                payload = None,
                videoUrl = url,
                error = None,
                raw = None,
                preview = string_of (get_prop entry ''preview''),
                events = stored_events env (get_prop entry ''events''),
                storagePath = (case string_of (get_prop entry ''storagePath'') of
                         Some s \<Rightarrow> s | None \<Rightarrow> ''downloads''),
                localKey = key,
                localUrl = url,
                saving = Some False,
                saved = Some True,
                saveError = None\<rparr>)"

text \<open>\<open>.filter(Boolean)\<close> on the mapped entries.\<close>

primrec keep_jobs :: "'a option list \<Rightarrow> 'a list" where
  "keep_jobs [] = []"
| "keep_jobs (x # xs) = (case x of None \<Rightarrow> keep_jobs xs | Some j \<Rightarrow> j # keep_jobs xs)"

definition loadStoredJobs :: "Browser \<Rightarrow> localStorage \<Rightarrow> Job list" where
  "loadStoredJobs env storage =
     (if \<not> has_window env then []
      else case storage VIDEO_JOBS_STORAGE_KEY of
        None \<Rightarrow> []
      | Some item \<Rightarrow>
          if item = [] then []
          else (case JSON_parse env item of
            None \<Rightarrow> []
          | Some data \<Rightarrow>
              (case data of
                JArr entries \<Rightarrow>
                  keep_jobs (map (\<lambda>(k, entry). rehydrate env k entry) (enumerate 0 entries))
              | _ \<Rightarrow> [])))"







section \<open>Updates of the job list\<close>

text \<open>
  \<open>notifyJobUpdate\<close>: the updater passed to \<open>setJobs\<close>. The patch is a function on the job it
  meets: for \<open>{...job, ...patch}\<close> it overwrites the fields the patch object lists, and a patch
  given as a function of the previous job is covered as well.
\<close>

definition notifyJobUpdate :: "string \<Rightarrow> (Job \<Rightarrow> Job) \<Rightarrow> Job list \<Rightarrow> Job list" where
  "notifyJobUpdate jobId patch prev =
     map (\<lambda>job. if id' job \<noteq> jobId then job else patch job) prev"

definition enqueueJob :: "string \<Rightarrow> UnifiedPayload \<Rightarrow> Job list \<Rightarrow> Job list" where
  "enqueueJob jobId pl prev =
     map (\<lambda>job. if id' job = jobId then job\<lparr>status := Queued, payload := Some pl\<rparr> else job) prev"

text \<open>What a rejected promise or a \<open>throw\<close> carries: an \<open>Error\<close> with its message, or another value.\<close>

datatype thrown = ErrorObject string | OtherValue

datatype 'a settled = Resolved 'a | Rejected thrown

text \<open>\<open>error instanceof Error ? error.message : fallback\<close>\<close>

definition message_or :: "thrown \<Rightarrow> string \<Rightarrow> string" where
  "message_or e fallback = (case e of ErrorObject m \<Rightarrow> m | OtherValue \<Rightarrow> fallback)"

section \<open>The prepare pipeline\<close>

text \<open>
  The result of \<open>client.storage.upload\<close>, of type \<open>unknown\<close>: a falsy value, a string, an
  object read as an \<open>UploadResponseRecord\<close>, or another truthy value.
\<close>

record UploadData =
  d_url :: "string option"
  d_signed_url :: "string option"
  d_signedUrl :: "string option"

record UploadResponseRecord =
  u_url :: "string option"
  u_signedUrl :: "string option"
  u_signed_url :: "string option"
  u_data :: "UploadData option"

datatype upload_result =
  UFalsy | UString string | UObject UploadResponseRecord | UOther

text \<open>\<open>a ?? b\<close>\<close>

definition nullish :: "'a option \<Rightarrow> 'a option \<Rightarrow> 'a option" where
  "nullish a b = (case a of Some x \<Rightarrow> Some x | None \<Rightarrow> b)"

text \<open>\<open>record.data?.field\<close>\<close>

definition data_field :: "UploadResponseRecord \<Rightarrow> (UploadData \<Rightarrow> string option) \<Rightarrow> string option" where
  "data_field r f = (case u_data r of None \<Rightarrow> None | Some d \<Rightarrow> f d)"

definition extractUploadUrl :: "upload_result \<Rightarrow> string option" where
  "extractUploadUrl uploadResult = (case uploadResult of
     UFalsy \<Rightarrow> None
   | UString s \<Rightarrow> (if s = [] then None else Some s)
   | UObject r \<Rightarrow>
       nullish (u_url r) (nullish (u_signedUrl r) (nullish (u_signed_url r)
         (nullish (data_field r d_url) (nullish (data_field r d_signed_url)
           (data_field r d_signedUrl)))))
   | UOther \<Rightarrow> None)"

datatype support_flag = Flag bool | Unstable | Unspecified | Undefined

definition isSupportEnabled :: "support_flag \<Rightarrow> bool" where
  "isSupportEnabled flag = (flag = Flag True)"

text \<open>
  The calls \<open>prepareJobPayload\<close> makes, in order, and the exception it ends with, if any. The
  uploads are given by their outcomes: that of the start file, and, where an end file was
  supplied, the outcome its upload has if it is attempted.
\<close>

datatype prepare_call = UploadStart | UploadEnd | Enqueue string UnifiedPayload

definition prepareJobPayload ::
  "string \<Rightarrow> support_flag \<Rightarrow> UnifiedPayload \<Rightarrow> upload_result settled \<Rightarrow>
   upload_result settled option \<Rightarrow> prepare_call list \<times> thrown option" where
  "prepareJobPayload jobId endFrame basePayload startUpload endFile = (case startUpload of
     Rejected e \<Rightarrow> ([UploadStart], Some e)
   | Resolved startResult \<Rightarrow>
       (case extractUploadUrl startResult of
          None \<Rightarrow> ([UploadStart], Some (ErrorObject ''Unable to upload start frame.''))
        | Some startUrl \<Rightarrow>
            if startUrl = [] then ([UploadStart], Some (ErrorObject ''Unable to upload start frame.''))
            else let pl = basePayload\<lparr>start_frame_url := startUrl\<rparr>
                 in (case endFile of
                       None \<Rightarrow> ([UploadStart, Enqueue jobId pl], None)
                     | Some endUpload \<Rightarrow>
                         if \<not> isSupportEnabled endFrame then ([UploadStart, Enqueue jobId pl], None)
                         else (case endUpload of
                           Rejected e \<Rightarrow> ([UploadStart, UploadEnd], Some e)
                         | Resolved endResult \<Rightarrow>
                             (case extractUploadUrl endResult of
                                None \<Rightarrow> ([UploadStart, UploadEnd],
                                          Some (ErrorObject ''Unable to upload end frame.''))
                              | Some endUrl \<Rightarrow>
                                  if endUrl = [] then ([UploadStart, UploadEnd],
                                          Some (ErrorObject ''Unable to upload end frame.''))
                                  else ([UploadStart, UploadEnd,
                                         Enqueue jobId (pl\<lparr>end_frame_url := Some endUrl\<rparr>)], None))))))"

text \<open>
  The URL an upload yields for the pipeline: none when the upload is rejected, and none when
  \<open>extractUploadUrl\<close> finds no URL in its result or an empty one.
\<close>

definition upload_url :: "upload_result settled \<Rightarrow> string option" where
  "upload_url u = (case u of
     Rejected _ \<Rightarrow> None
   | Resolved r \<Rightarrow>
       (case extractUploadUrl r of None \<Rightarrow> None | Some url \<Rightarrow> if url = [] then None else Some url))"

text \<open>What the pipeline throws when an upload yields no URL.\<close>

definition upload_error :: "upload_result settled \<Rightarrow> string \<Rightarrow> thrown" where
  "upload_error u msg = (case u of Rejected e \<Rightarrow> e | Resolved _ \<Rightarrow> ErrorObject msg)"

text \<open>The effect of one call of the pipeline on the job list: only \<open>enqueueJob\<close> touches it.\<close>

definition run_call :: "Job list \<Rightarrow> prepare_call \<Rightarrow> Job list" where
  "run_call jobs c = (case c of Enqueue jobId pl \<Rightarrow> enqueueJob jobId pl jobs | _ \<Rightarrow> jobs)"

text \<open>
  \<open>handleGenerate\<close> from \<open>await prepareJobPayload\<close> on: the calls of the pipeline, then the
  \<open>catch\<close> block if it threw.
\<close>

definition handleGenerate_settle ::
  "string \<Rightarrow> prepare_call list \<times> thrown option \<Rightarrow> Job list \<Rightarrow> Job list" where
  "handleGenerate_settle jobId outcome jobs =
     (let jobs1 = foldl run_call jobs (fst outcome)
      in case snd outcome of
           None \<Rightarrow> jobs1
         | Some e \<Rightarrow>
             notifyJobUpdate jobId
               (\<lambda>job. job\<lparr>status := Error, error := Some (message_or e ''Upload failed.'')\<rparr>) jobs1)"

text \<open>The job \<open>handleGenerate\<close> puts at the front of the list.\<close>

definition new_job :: "string \<Rightarrow> string \<Rightarrow> string \<Rightarrow> int \<Rightarrow> string option \<Rightarrow> string \<Rightarrow> Job" where
  "new_job jobId model promptText now startPreview path = \<lparr>
     id' = jobId, modelId = model, prompt = promptText, status = Uploading, createdAt = now,
     attempts = 0, payload = None, videoUrl = None, error = None, raw = None,
     preview = startPreview, events = [], storagePath = path, localKey = None,
     localUrl = None, saving = Some False, saved = Some False, saveError = None\<rparr>"

section \<open>Persisting the video of a finished job\<close>

text \<open>A \<open>fetch\<close> response: its \<open>ok\<close> flag and its status.\<close>

datatype response = Response bool int

text \<open>
  The outcomes \<open>persistVideoAsset\<close> meets, in order: the \<open>fetch\<close> of the video, reading and
  encoding its body (\<open>None\<close> when that works), and the \<open>POST\<close> to \<^verbatim>\<open>/api/assets\<close>. The first failure
  is what the \<open>catch\<close> block receives.
\<close>

definition persist_failure :: "response settled \<Rightarrow> thrown option \<Rightarrow> response settled \<Rightarrow> thrown option" where
  "persist_failure fetched body posted = (case fetched of
     Rejected e \<Rightarrow> Some e
   | Resolved (Response ok code) \<Rightarrow>
       if \<not> ok then Some (ErrorObject (''Failed to fetch video ('' @ number_to_string code @ '')''))
       else (case body of
          Some e \<Rightarrow> Some e
        | None \<Rightarrow>
            (case posted of
               Rejected e \<Rightarrow> Some e
             | Resolved (Response saved_ok _) \<Rightarrow>
                 if \<not> saved_ok then Some (ErrorObject ''Failed to persist video locally.'')
                 else None)))"

definition persistVideoAsset ::
  "(string \<Rightarrow> string) \<Rightarrow> string \<Rightarrow> string \<Rightarrow> response settled \<Rightarrow> thrown option \<Rightarrow>
   response settled \<Rightarrow> Job list \<Rightarrow> Job list" where
  "persistVideoAsset encodeURIComponent jobId fileName fetched body posted jobs =
     (case persist_failure fetched body posted of
        None \<Rightarrow>
          (let url = ''/assets/'' @ encodeURIComponent fileName
           in notifyJobUpdate jobId
                (\<lambda>job. job\<lparr>saving := Some False, saved := Some True, localKey := Some fileName,
                             localUrl := Some url, videoUrl := Some url, saveError := None\<rparr>) jobs)
      | Some e \<Rightarrow>
          notifyJobUpdate jobId
            (\<lambda>job. job\<lparr>saving := Some False, saved := Some False,
                         saveError := Some (message_or e ''Unable to persist video locally.'')\<rparr>)
            jobs)"

section \<open>Retry\<close>

text \<open>The guard of the retry button in the job card, and its handler.\<close>

definition retry_offered :: "Job \<Rightarrow> bool" where
  "retry_offered job = (status job = Error \<and> payload job \<noteq> None)"

definition handleRetry :: "Job \<Rightarrow> Job list \<Rightarrow> Job list" where
  "handleRetry job jobs =
     (if payload job = None then jobs
      else notifyJobUpdate (id' job) (\<lambda>j. j\<lparr>status := Queued, error := None\<rparr>) jobs)"

section \<open>The scheduler\<close>

text \<open>
  The page keeps the job list (\<open>jobs\<close>, a React state) and the set of the ids of the running
  executions (\<open>runningJobs\<close>, a ref holding a \<open>Set\<close>, kept here in insertion order). The
  asynchronous functions in flight are part of the state as well: \<open>preparing\<close> holds the ids of
  the jobs whose \<open>handleGenerate\<close> awaits \<open>prepareJobPayload\<close>, and \<open>executions\<close> the calls of
  \<open>startJobExecution\<close> that have not reached the end of their \<open>finally\<close> block, each with the
  job it was called with and the \<open>await\<close> it is suspended at.
\<close>

datatype phase = AwaitProvider | AwaitPersist string string | AwaitFinally

record Page =
  jobs :: "Job list"
  runningJobs :: "string list"
  preparing :: "string list"
  executions :: "(Job \<times> phase) list"

definition set_add :: "string \<Rightarrow> string list \<Rightarrow> string list" where
  "set_add x xs = (if x \<in> set xs then xs else xs @ [x])"

definition set_delete :: "string \<Rightarrow> string list \<Rightarrow> string list" where
  "set_delete x xs = removeAll x xs"

text \<open>\<open>startJobExecution\<close> up to its first \<open>await\<close>.\<close>

definition startJobExecution :: "Job \<Rightarrow> Page \<Rightarrow> Page" where
  "startJobExecution job s =
     (if payload job = None then s
      else s\<lparr>runningJobs := set_add (id' job) (runningJobs s),
             jobs := notifyJobUpdate (id' job)
                       (\<lambda>j. j\<lparr>status := Running, attempts := attempts job + 1\<rparr>) (jobs s),
             executions := executions s @ [(job, AwaitProvider)]\<rparr>)"

text \<open>The effect that runs when the job list changes.\<close>

definition scheduler_tick :: "Page \<Rightarrow> Page" where
  "scheduler_tick s =
     (if MAX_CONCURRENT_JOBS \<le> length (runningJobs s) then s
      else case find (\<lambda>job. status job = Queued \<and> id' job \<notin> set (runningJobs s)) (jobs s) of
             None \<Rightarrow> s
           | Some nextJob \<Rightarrow> startJobExecution nextJob s)"

text \<open>
  The callback \<open>runFal\<close> calls on a queue update. \<open>None\<close> is a falsy event; otherwise the
  argument is the message the callback derives from the event (the event itself when it is a
  string, else its \<open>status\<close>, its \<open>message\<close> or its JSON text).
\<close>

definition execution_event :: "Job \<Rightarrow> string option \<Rightarrow> Page \<Rightarrow> Page" where
  "execution_event job event s = (case event of
     None \<Rightarrow> s
   | Some message \<Rightarrow>
       s\<lparr>jobs := notifyJobUpdate (id' job)
                    (\<lambda>prevJob. prevJob\<lparr>events := events prevJob @ [message]\<rparr>) (jobs s)\<rparr>)"

definition set_phase :: "string \<Rightarrow> phase \<Rightarrow> (Job \<times> phase) list \<Rightarrow> (Job \<times> phase) list" where
  "set_phase jobId ph xs = map (\<lambda>(job, p). if id' job = jobId then (job, ph) else (job, p)) xs"

definition drop_execution :: "string \<Rightarrow> (Job \<times> phase) list \<Rightarrow> (Job \<times> phase) list" where
  "drop_execution jobId xs = filter (\<lambda>(job, p). id' job \<noteq> jobId) xs"

text \<open>\<open>runFal\<close> resolved: from the file name to the \<open>await\<close> of \<open>persistVideoAsset\<close>.\<close>

definition execution_resolved ::
  "(int \<Rightarrow> string) \<Rightarrow> Job \<Rightarrow> string \<Rightarrow> json option \<Rightarrow> Page \<Rightarrow> Page" where
  "execution_resolved stamp job url rawData s =
     (let fileName = buildVideoFileName stamp
            \<lparr>fn_id = id' job, fn_modelId = modelId job, fn_createdAt = createdAt job,
             fn_storagePath = storagePath job\<rparr>
      in s\<lparr>jobs := notifyJobUpdate (id' job)
                     (\<lambda>j. j\<lparr>status := Success, videoUrl := Some url, raw := rawData,
                            saving := Some True, saved := Some False,
                            localKey := Some fileName, localUrl := None, saveError := None\<rparr>)
                     (jobs s),
             executions := set_phase (id' job) (AwaitPersist fileName url) (executions s)\<rparr>)"

text \<open>\<open>runFal\<close> rejected: the \<open>catch\<close> block and the \<open>finally\<close> block, which run together.\<close>

definition execution_rejected :: "Job \<Rightarrow> thrown \<Rightarrow> Page \<Rightarrow> Page" where
  "execution_rejected job e s =
     s\<lparr>jobs := notifyJobUpdate (id' job)
                  (\<lambda>j. j\<lparr>status := Error, error := Some (message_or e ''Generation failed.'')\<rparr>)
                  (jobs s),
       runningJobs := set_delete (id' job) (runningJobs s),
       executions := drop_execution (id' job) (executions s)\<rparr>"

text \<open>The end of \<open>persistVideoAsset\<close>, which never throws.\<close>

definition execution_persisted ::
  "(string \<Rightarrow> string) \<Rightarrow> Job \<Rightarrow> string \<Rightarrow> response settled \<Rightarrow> thrown option \<Rightarrow>
   response settled \<Rightarrow> Page \<Rightarrow> Page" where
  "execution_persisted encodeURIComponent job fileName fetched body posted s =
     s\<lparr>jobs := persistVideoAsset encodeURIComponent (id' job) fileName fetched body posted (jobs s),
       executions := set_phase (id' job) AwaitFinally (executions s)\<rparr>"

text \<open>The \<open>finally\<close> block after the \<open>await\<close> of \<open>persistVideoAsset\<close>.\<close>

definition execution_finally :: "Job \<Rightarrow> Page \<Rightarrow> Page" where
  "execution_finally job s =
     s\<lparr>runningJobs := set_delete (id' job) (runningJobs s),
       executions := drop_execution (id' job) (executions s)\<rparr>"

text \<open>
  What can happen to the page, one event at a time: a submission that passed the checks of
  \<open>handleGenerate\<close> (with the id \<open>createId\<close> drew, which is taken to be new to the job list),
  the end of a prepare pipeline, a run of the scheduler effect, a queue update, the end of a
  provider call, the end of a persistence attempt, the \<open>finally\<close> block of an execution, and a
  click on the retry button of the job shown at a position of the list.
\<close>

datatype event =
    Submit string string string int "string option" string
  | PrepareSettled string support_flag UnifiedPayload "upload_result settled"
      "upload_result settled option"
  | Tick
  | ProviderEvent string "string option"
  | ProviderSettled string "(string \<times> json option) settled"
  | PersistSettled string "response settled" "thrown option" "response settled"
  | ExecutionFinally string
  | RetryClicked nat

definition execution_of :: "string \<Rightarrow> Page \<Rightarrow> (Job \<times> phase) option" where
  "execution_of jobId s = find (\<lambda>(job, p). id' job = jobId) (executions s)"

text \<open>\<open>fire\<close> gives the page after an event, and \<open>None\<close> for an event that cannot happen there.\<close>

fun fire :: "(int \<Rightarrow> string) \<Rightarrow> (string \<Rightarrow> string) \<Rightarrow> event \<Rightarrow> Page \<Rightarrow> Page option" where
  "fire stamp enc (Submit jobId model promptText now startPreview path) s =
     (if jobId \<in> set (map id' (jobs s)) then None
      else Some (s\<lparr>jobs := new_job jobId model promptText now startPreview path # jobs s,
                   preparing := preparing s @ [jobId]\<rparr>))"
| "fire stamp enc (PrepareSettled jobId endFrame basePayload startUpload endUpload) s =
     (if jobId \<notin> set (preparing s) then None
      else Some (s\<lparr>jobs := handleGenerate_settle jobId
                     (prepareJobPayload jobId endFrame basePayload startUpload endUpload) (jobs s),
                   preparing := removeAll jobId (preparing s)\<rparr>))"
| "fire stamp enc Tick s = Some (scheduler_tick s)"
| "fire stamp enc (ProviderEvent jobId ev) s =
     (case execution_of jobId s of
        Some (job, AwaitProvider) \<Rightarrow> Some (execution_event job ev s)
      | _ \<Rightarrow> None)"
| "fire stamp enc (ProviderSettled jobId result) s =
     (case execution_of jobId s of
        Some (job, AwaitProvider) \<Rightarrow>
          (case result of
             Resolved (url, rawData) \<Rightarrow> Some (execution_resolved stamp job url rawData s)
           | Rejected e \<Rightarrow> Some (execution_rejected job e s))
      | _ \<Rightarrow> None)"
| "fire stamp enc (PersistSettled jobId fetched body posted) s =
     (case execution_of jobId s of
        Some (job, AwaitPersist fileName url) \<Rightarrow>
          Some (execution_persisted enc job fileName fetched body posted s)
      | _ \<Rightarrow> None)"
| "fire stamp enc (ExecutionFinally jobId) s =
     (case execution_of jobId s of
        Some (job, AwaitFinally) \<Rightarrow> Some (execution_finally job s)
      | _ \<Rightarrow> None)"
| "fire stamp enc (RetryClicked n) s =
     (if n < length (jobs s) \<and> retry_offered (jobs s ! n)
      then Some (s\<lparr>jobs := handleRetry (jobs s ! n) (jobs s)\<rparr>)
      else None)"

text \<open>The page once the mount effect has loaded the stored jobs.\<close>

definition initial_page :: "Browser \<Rightarrow> localStorage \<Rightarrow> Page" where
  "initial_page env storage =
     \<lparr>jobs = loadStoredJobs env storage, runningJobs = [], preparing = [], executions = []\<rparr>"

text \<open>The pages that a sequence of events leads to from a page \<open>s0\<close>.\<close>

inductive reachable :: "(int \<Rightarrow> string) \<Rightarrow> (string \<Rightarrow> string) \<Rightarrow> Page \<Rightarrow> Page \<Rightarrow> bool"
  for stamp :: "int \<Rightarrow> string" and enc :: "string \<Rightarrow> string" and s0 :: Page where
  start: "reachable stamp enc s0 s0"
| step: "reachable stamp enc s0 s \<Longrightarrow> fire stamp enc e s = Some s' \<Longrightarrow> reachable stamp enc s0 s'"

text \<open>A sequence of events, run from a page.\<close>

fun run :: "(int \<Rightarrow> string) \<Rightarrow> (string \<Rightarrow> string) \<Rightarrow> event list \<Rightarrow> Page \<Rightarrow> Page option" where
  "run stamp enc [] s = Some s"
| "run stamp enc (e # es) s =
     (case fire stamp enc e s of None \<Rightarrow> None | Some s' \<Rightarrow> run stamp enc es s')"

definition running_count :: "Page \<Rightarrow> nat" where
  "running_count s = length (filter (\<lambda>job. status job = Running) (jobs s))"

section \<open>Invariants of the scheduler\<close>

text \<open>The number of jobs of a list that carry an id, and the ids of its running jobs.\<close>

definition count_id :: "string \<Rightarrow> Job list \<Rightarrow> nat" where
  "count_id i xs = length (filter (\<lambda>job. id' job = i) xs)"

definition running_ids :: "Job list \<Rightarrow> string set" where
  "running_ids xs = id' ` {job \<in> set xs. status job = Running}"

text \<open>
  What holds of every page the scheduler reaches: \<open>runningJobs\<close> is a set of at most
  \<open>MAX_CONCURRENT_JOBS\<close> ids; the id of a running job is in it; a job that has a payload or is
  being prepared is the only job with its id; a queued or running job has a payload; the
  executions in flight have distinct ids, all in \<open>runningJobs\<close>; and no job is running under
  the id of an execution that is past its provider call.
\<close>

definition page_inv :: "Page \<Rightarrow> bool" where
  "page_inv s \<longleftrightarrow>
     distinct (runningJobs s) \<and>
     length (runningJobs s) \<le> MAX_CONCURRENT_JOBS \<and>
     running_ids (jobs s) \<subseteq> set (runningJobs s) \<and>
     (\<forall>job \<in> set (jobs s).
        payload job \<noteq> None \<or> id' job \<in> set (preparing s) \<longrightarrow> count_id (id' job) (jobs s) \<le> 1) \<and>
     (\<forall>job \<in> set (jobs s). status job = Running \<or> status job = Queued \<longrightarrow> payload job \<noteq> None) \<and>
     (\<forall>x \<in> set (executions s). id' (fst x) \<in> set (runningJobs s)) \<and>
     distinct (map (\<lambda>x. id' (fst x)) (executions s)) \<and>
     (\<forall>x \<in> set (executions s). snd x \<noteq> AwaitProvider \<longrightarrow> id' (fst x) \<notin> running_ids (jobs s))"

text \<open>
  What holds of every page reached from a page that shows the list \<open>stored\<close>: the list is
  still there, as the end of the job list, behind jobs with other ids, and the pipelines and
  executions in flight belong to those other jobs.
\<close>

definition keeps_stored :: "Job list \<Rightarrow> Page \<Rightarrow> bool" where
  "keeps_stored stored s \<longleftrightarrow>
     (\<exists>news. jobs s = news @ stored \<and>
        id' ` set news \<inter> id' ` set stored = {} \<and>
        set (preparing s) \<subseteq> id' ` set news \<and>
        (\<forall>x \<in> set (executions s). fst x \<notin> set stored \<and> id' (fst x) \<in> id' ` set news))"

section \<open>Sample values\<close>

text \<open>Concrete jobs, outcomes and a concrete browser, for evaluating the definitions.\<close>

definition sample_payload :: UnifiedPayload where
  "sample_payload = \<lparr>
     p_modelId = ''kling-2.5-pro'', p_prompt = ''a red kite'', start_frame_url = [],
     end_frame_url = None, duration = None, aspect_ratio = None, resolution = None,
     fps = None, generate_audio = None, negative_prompt = None, cfg_scale = None,
     prompt_optimizer = None\<rparr>"

definition sample_job :: "string \<Rightarrow> JobStatus \<Rightarrow> UnifiedPayload option \<Rightarrow> Job" where
  "sample_job jobId st pl =
     (new_job jobId ''kling-2.5-pro'' ''a red kite'' 1700000000000 None ''downloads'')
       \<lparr>status := st, payload := pl\<rparr>"

text \<open>\<open>encodeURIComponent\<close> on names made of unreserved characters.\<close>

definition plain_encode :: "string \<Rightarrow> string" where
  "plain_encode name = name"

text \<open>
  A stored index of three entries: a complete record, a record without an access URL, and
  \<open>null\<close>.
\<close>

definition sample_index :: json where
  "sample_index = JArr [
     JObj [(''id'', JStr ''job_1699999999999_k3x9qa''), (''prompt'', JStr ''a blue kite''),
           (''localKey'', JStr ''downloads-kling-2-5-pro-20231114-k3x9qa.mp4''),
           (''localUrl'', JStr ''/assets/downloads-kling-2-5-pro-20231114-k3x9qa.mp4''),
           (''createdAt'', JNum 1699999999999)],
     JObj [(''id'', JStr ''job_1699999999000_zz81mc''),
           (''localKey'', JStr ''downloads-kling-2-5-pro-20231114-zz81mc.mp4'')],
     JNull]"

text \<open>
  A stand-in for \<open>JSON.parse\<close>: it yields the sample index on the text stored under the key,
  an object on \<open>{}\<close>, and throws on any other text.
\<close>

definition sample_parse :: "string \<Rightarrow> json option" where
  "sample_parse t =
     (if t = ''<stored index>'' then Some sample_index
      else if t = ''{}'' then Some (JObj [])
      else None)"

definition sample_stringify :: "json \<Rightarrow> string" where
  "sample_stringify v = ''{}''"

definition sample_clock :: "nat \<Rightarrow> int" where
  "sample_clock k = 1700000000000 + int k"

definition sample_random :: "nat \<Rightarrow> string" where
  "sample_random k = ''abc123''"

definition sample_browser :: Browser where
  "sample_browser = \<lparr>
     has_window = True, JSON_parse = sample_parse, JSON_stringify = sample_stringify,
     DEFAULT_MODEL_ID = ''kling-2.5-pro'', clock_id = sample_clock, random36 = sample_random,
     clock = sample_clock\<rparr>"

definition sample_storage :: "string \<Rightarrow> localStorage" where
  "sample_storage item = Map.empty(VIDEO_JOBS_STORAGE_KEY \<mapsto> item)"

text \<open>
  Three submissions whose uploads succeed, and three runs of the scheduler effect, on a
  page that starts from the sample index.
\<close>

definition sample_events :: "event list" where
  "sample_events = [
     Submit ''job_a'' ''kling-2.5-pro'' ''a red kite'' 1700000000000 None ''downloads'',
     Submit ''job_b'' ''kling-2.5-pro'' ''a green kite'' 1700000000001 None ''downloads'',
     Submit ''job_c'' ''kling-2.5-pro'' ''a white kite'' 1700000000002 None ''downloads'',
     PrepareSettled ''job_a'' (Flag False) sample_payload
       (Resolved (UString ''https://up/a.png'')) None,
     PrepareSettled ''job_b'' (Flag False) sample_payload
       (Resolved (UString ''https://up/b.png'')) None,
     PrepareSettled ''job_c'' (Flag False) sample_payload
       (Resolved (UString ''https://up/c.png'')) None,
     Tick, Tick, Tick]"

text \<open>The job that rehydration makes of the sample index, and the page that shows it.\<close>

definition sample_stored_job :: Job where
  "sample_stored_job = \<lparr>
     id' = ''job_1699999999999_k3x9qa'', modelId = ''kling-2.5-pro'', prompt = ''a blue kite'',
     status = Success, createdAt = 1699999999999, attempts = 1, payload = None,
     videoUrl = Some ''/assets/downloads-kling-2-5-pro-20231114-k3x9qa.mp4'',
     error = None, raw = None, preview = None, events = [], storagePath = ''downloads'',
     localKey = Some ''downloads-kling-2-5-pro-20231114-k3x9qa.mp4'',
     localUrl = Some ''/assets/downloads-kling-2-5-pro-20231114-k3x9qa.mp4'',
     saving = Some False, saved = Some True, saveError = None\<rparr>"

definition sample_start :: Page where
  "sample_start = \<lparr>jobs = [sample_stored_job], runningJobs = [], preparing = [],
     executions = []\<rparr>"

text \<open>The sample page once the three jobs are queued, before the scheduler effect has run.\<close>

definition sample_queued :: Page where
  "sample_queued = the (run number_to_string plain_encode (take 6 sample_events) sample_start)"

section \<open>Properties of the aspect-ratio mapping\<close>


















section \<open>Properties of the file name\<close>






section \<open>Properties of the updates and of retry\<close>


lemma notifyJobUpdate_length [simp]: "length (notifyJobUpdate i p xs) = length xs"
  by (simp add: notifyJobUpdate_def)

lemma notifyJobUpdate_nth:
  "n < length xs \<Longrightarrow> notifyJobUpdate i p xs ! n = (if id' (xs ! n) \<noteq> i then xs ! n else p (xs ! n))"
  by (simp add: notifyJobUpdate_def)

lemma handleRetry_no_payload: "payload job = None \<Longrightarrow> handleRetry job xs = xs"
  by (simp add: handleRetry_def)

lemma handleRetry_nth:
  assumes "payload job \<noteq> None" and "n < length xs"
  shows "handleRetry job xs ! n =
    (if id' (xs ! n) = id' job then (xs ! n)\<lparr>status := Queued, error := None\<rparr> else xs ! n)"
  using assms by (cases "payload job") (simp_all add: handleRetry_def notifyJobUpdate_nth)

lemma handleRetry_length: "length (handleRetry job xs) = length xs"
  by (simp add: handleRetry_def)

text \<open>
  C2: the retry button is there, and \<open>RetryClicked\<close> can happen, only for a job whose status is
  \<open>Error\<close> and whose payload is present. For such a job the handler sets the status to
  \<open>Queued\<close> and clears the error message; nothing else of the job changes, the attempt counter
  of no job changes, and a job with another id is left as it is. Called with a job without a
  payload, the handler leaves the list as it is.
\<close>

theorem C2_retry:
  "(fire stamp enc (RetryClicked n) s \<noteq> None \<longleftrightarrow>
      n < length (jobs s) \<and> status (jobs s ! n) = Error \<and> payload (jobs s ! n) \<noteq> None) \<and>
   (n < length xs \<and> status (xs ! n) = Error \<and> payload (xs ! n) \<noteq> None \<longrightarrow>
      fire stamp enc (RetryClicked n) \<lparr>jobs = xs, runningJobs = rs, preparing = ps, executions = es\<rparr>
        = Some \<lparr>jobs = handleRetry (xs ! n) xs, runningJobs = rs, preparing = ps, executions = es\<rparr> \<and>
      length (handleRetry (xs ! n) xs) = length xs \<and>
      handleRetry (xs ! n) xs ! n = (xs ! n)\<lparr>status := Queued, error := None\<rparr> \<and>
      status (handleRetry (xs ! n) xs ! n) = Queued \<and>
      error (handleRetry (xs ! n) xs ! n) = None \<and>
      (\<forall>m < length xs. attempts (handleRetry (xs ! n) xs ! m) = attempts (xs ! m)) \<and>
      (\<forall>m < length xs. id' (xs ! m) \<noteq> id' (xs ! n) \<longrightarrow> handleRetry (xs ! n) xs ! m = xs ! m)) \<and>
   (payload job = None \<longrightarrow> handleRetry job xs = xs)"
proof -
  have valid: "fire stamp enc (RetryClicked n) s \<noteq> None \<longleftrightarrow>
      n < length (jobs s) \<and> status (jobs s ! n) = Error \<and> payload (jobs s ! n) \<noteq> None"
    by (simp add: retry_offered_def)
  have effect: "fire stamp enc (RetryClicked n) \<lparr>jobs = xs, runningJobs = rs, preparing = ps, executions = es\<rparr>
        = Some \<lparr>jobs = handleRetry (xs ! n) xs, runningJobs = rs, preparing = ps, executions = es\<rparr> \<and>
      length (handleRetry (xs ! n) xs) = length xs \<and>
      handleRetry (xs ! n) xs ! n = (xs ! n)\<lparr>status := Queued, error := None\<rparr> \<and>
      status (handleRetry (xs ! n) xs ! n) = Queued \<and>
      error (handleRetry (xs ! n) xs ! n) = None \<and>
      (\<forall>m < length xs. attempts (handleRetry (xs ! n) xs ! m) = attempts (xs ! m)) \<and>
      (\<forall>m < length xs. id' (xs ! m) \<noteq> id' (xs ! n) \<longrightarrow> handleRetry (xs ! n) xs ! m = xs ! m)"
    if "n < length xs" "status (xs ! n) = Error" "payload (xs ! n) \<noteq> None"
    using that by (simp add: retry_offered_def handleRetry_nth handleRetry_length)
  from valid effect handleRetry_no_payload [of job xs] show ?thesis by blast
qed



theorem C2_retry_witness:
  "(0 < length [sample_job ''job_a'' Error (Some sample_payload)] \<and>
    status ([sample_job ''job_a'' Error (Some sample_payload)] ! 0) = Error \<and>
    payload ([sample_job ''job_a'' Error (Some sample_payload)] ! 0) \<noteq> None) \<and>
   status (handleRetry ([sample_job ''job_a'' Error (Some sample_payload)] ! 0)
             [sample_job ''job_a'' Error (Some sample_payload)] ! 0) = Queued \<and>
   attempts (handleRetry ([sample_job ''job_a'' Error (Some sample_payload)] ! 0)
             [sample_job ''job_a'' Error (Some sample_payload)] ! 0) = 0 \<and>
   payload (sample_job ''job_b'' Uploading None) = None \<and>
   handleRetry (sample_job ''job_b'' Uploading None)
     [sample_job ''job_a'' Error (Some sample_payload)]
     = [sample_job ''job_a'' Error (Some sample_payload)]"
proof -
  let ?xs = "[sample_job ''job_a'' Error (Some sample_payload)]"
  let ?b = "sample_job ''job_b'' Uploading None"
  have h: "0 < length ?xs \<and> status (?xs ! 0) = Error \<and> payload (?xs ! 0) \<noteq> None"
    by (simp add: sample_job_def)
  have hb: "payload ?b = None" by (simp add: sample_job_def)
  note t = C2_retry [of number_to_string plain_encode 0 "initial_page sample_browser Map.empty"
      ?xs "[]" "[]" "[]" ?b]
  from t h have "status (handleRetry (?xs ! 0) ?xs ! 0) = Queued" by blast
  moreover from t h have "\<forall>m < length ?xs. attempts (handleRetry (?xs ! 0) ?xs ! m) = attempts (?xs ! m)"
    by blast
  then have "attempts (handleRetry (?xs ! 0) ?xs ! 0) = attempts (?xs ! 0)" by simp
  then have "attempts (handleRetry (?xs ! 0) ?xs ! 0) = 0"
    by (simp add: sample_job_def new_job_def)
  moreover from t hb have "handleRetry ?b ?xs = ?xs" by blast
  ultimately show ?thesis using h hb by blast
qed

section \<open>Properties of the persistence of a video\<close>
lemma persist_failure_cases:
  "persist_failure fetched body posted \<noteq> None \<longleftrightarrow>
     (\<exists>e. fetched = Rejected e) \<or> (\<exists>code. fetched = Resolved (Response False code)) \<or>
     (\<exists>code. fetched = Resolved (Response True code) \<and>
        (body \<noteq> None \<or> (\<exists>e. posted = Rejected e) \<or>
         (\<exists>code'. posted = Resolved (Response False code'))))"
  by (auto simp: persist_failure_def split: settled.splits response.splits option.splits)

lemma persistVideoAsset_failed:
  assumes "persist_failure fetched body posted = Some e"
  shows "persistVideoAsset enc jobId fileName fetched body posted xs =
    notifyJobUpdate jobId
      (\<lambda>job. job\<lparr>saving := Some False, saved := Some False,
                   saveError := Some (message_or e ''Unable to persist video locally.'')\<rparr>) xs"
  using assms by (simp add: persistVideoAsset_def)

lemma notifyJobUpdate_map_same:
  assumes "\<And>job. f (p job) = f job"
  shows "map f (notifyJobUpdate i p xs) = map f xs"
  using assms by (simp add: notifyJobUpdate_def)

text \<open>
  C6: when the persistence of the video of a job fails (the fetch of the video is rejected or
  answers with a response that is not ok, reading the body fails, or the write to the store
  is rejected or not ok), \<open>persistVideoAsset\<close> sets \<open>saveError\<close> of the job to the message,
  \<open>saving\<close> and \<open>saved\<close> to false, and changes nothing else: the status and the \<open>videoUrl\<close> of
  every job of the list are what they were.
\<close>

theorem C6_persist_failure_keeps_status:
  "((\<exists>e. fetched = Rejected e) \<or> (\<exists>code. fetched = Resolved (Response False code)) \<or>
    (\<exists>code. fetched = Resolved (Response True code) \<and>
       (body \<noteq> None \<or> (\<exists>e. posted = Rejected e) \<or>
        (\<exists>code'. posted = Resolved (Response False code')))) \<longrightarrow>
    (\<exists>e. persist_failure fetched body posted = Some e \<and>
      length (persistVideoAsset enc jobId fileName fetched body posted xs) = length xs \<and>
      map status (persistVideoAsset enc jobId fileName fetched body posted xs) = map status xs \<and>
      map videoUrl (persistVideoAsset enc jobId fileName fetched body posted xs) = map videoUrl xs \<and>
      (\<forall>n < length xs. id' (xs ! n) = jobId \<longrightarrow>
         persistVideoAsset enc jobId fileName fetched body posted xs ! n =
           (xs ! n)\<lparr>saving := Some False, saved := Some False,
                     saveError := Some (message_or e ''Unable to persist video locally.'')\<rparr>) \<and>
      (\<forall>n < length xs. id' (xs ! n) \<noteq> jobId \<longrightarrow>
         persistVideoAsset enc jobId fileName fetched body posted xs ! n = xs ! n)))"
proof
  assume "(\<exists>e. fetched = Rejected e) \<or> (\<exists>code. fetched = Resolved (Response False code)) \<or>
    (\<exists>code. fetched = Resolved (Response True code) \<and>
       (body \<noteq> None \<or> (\<exists>e. posted = Rejected e) \<or>
        (\<exists>code'. posted = Resolved (Response False code'))))"
  then have "persist_failure fetched body posted \<noteq> None"
    by (simp only: persist_failure_cases)
  then obtain e where e: "persist_failure fetched body posted = Some e" by blast
  let ?ys = "persistVideoAsset enc jobId fileName fetched body posted xs"
  let ?p = "\<lambda>job. job\<lparr>saving := Some False, saved := Some False,
                   saveError := Some (message_or e ''Unable to persist video locally.'')\<rparr>"
  have ys: "?ys = notifyJobUpdate jobId ?p xs"
    using e by (rule persistVideoAsset_failed)
  have "length ?ys = length xs" by (simp add: ys)
  moreover have "map status ?ys = map status xs"
    unfolding ys by (rule notifyJobUpdate_map_same) simp
  moreover have "map videoUrl ?ys = map videoUrl xs"
    unfolding ys by (rule notifyJobUpdate_map_same) simp
  moreover have "\<forall>n < length xs. id' (xs ! n) = jobId \<longrightarrow> ?ys ! n = ?p (xs ! n)"
    by (simp add: ys notifyJobUpdate_nth)
  moreover have "\<forall>n < length xs. id' (xs ! n) \<noteq> jobId \<longrightarrow> ?ys ! n = xs ! n"
    by (simp add: ys notifyJobUpdate_nth)
  ultimately show "\<exists>e. persist_failure fetched body posted = Some e \<and>
      length ?ys = length xs \<and> map status ?ys = map status xs \<and>
      map videoUrl ?ys = map videoUrl xs \<and>
      (\<forall>n < length xs. id' (xs ! n) = jobId \<longrightarrow> ?ys ! n =
           (xs ! n)\<lparr>saving := Some False, saved := Some False,
                     saveError := Some (message_or e ''Unable to persist video locally.'')\<rparr>) \<and>
      (\<forall>n < length xs. id' (xs ! n) \<noteq> jobId \<longrightarrow> ?ys ! n = xs ! n)"
    using e by blast
qed


theorem C6_persist_failure_keeps_status_witness:
  "persist_failure (Resolved (Response False 404)) None (Resolved (Response True 200))
     = Some (ErrorObject ''Failed to fetch video (404)'') \<and>
   map status (persistVideoAsset plain_encode ''job_a'' ''clip.mp4''
       (Resolved (Response False 404)) None (Resolved (Response True 200))
       [(sample_job ''job_a'' Success (Some sample_payload))\<lparr>videoUrl := Some ''https://cdn/clip''\<rparr>])
     = [Success] \<and>
   map videoUrl (persistVideoAsset plain_encode ''job_a'' ''clip.mp4''
       (Resolved (Response False 404)) None (Resolved (Response True 200))
       [(sample_job ''job_a'' Success (Some sample_payload))\<lparr>videoUrl := Some ''https://cdn/clip''\<rparr>])
     = [Some ''https://cdn/clip''] \<and>
   saveError (persistVideoAsset plain_encode ''job_a'' ''clip.mp4''
       (Resolved (Response False 404)) None (Resolved (Response True 200))
       [(sample_job ''job_a'' Success (Some sample_payload))\<lparr>videoUrl := Some ''https://cdn/clip''\<rparr>] ! 0)
     = Some ''Failed to fetch video (404)''"
proof -
  let ?xs = "[(sample_job ''job_a'' Success (Some sample_payload))\<lparr>videoUrl := Some ''https://cdn/clip''\<rparr>]"
  let ?f = "Resolved (Response False 404)"
  let ?p = "Resolved (Response True 200)"
  let ?ys = "persistVideoAsset plain_encode ''job_a'' ''clip.mp4'' ?f None ?p ?xs"
  have h: "(\<exists>e. ?f = Rejected e) \<or> (\<exists>code. ?f = Resolved (Response False code)) \<or>
    (\<exists>code. ?f = Resolved (Response True code) \<and>
       ((None :: thrown option) \<noteq> None \<or> (\<exists>e. ?p = Rejected e) \<or>
        (\<exists>code'. ?p = Resolved (Response False code'))))"
    by simp
  have f: "persist_failure ?f None ?p = Some (ErrorObject ''Failed to fetch video (404)'')"
    by code_simp
  from C6_persist_failure_keeps_status [of ?f None ?p plain_encode "''job_a''" "''clip.mp4''" ?xs] h
  obtain e where e: "persist_failure ?f None ?p = Some e"
    "map status ?ys = map status ?xs" "map videoUrl ?ys = map videoUrl ?xs"
    "\<forall>n < length ?xs. id' (?xs ! n) = ''job_a'' \<longrightarrow>
       ?ys ! n = (?xs ! n)\<lparr>saving := Some False, saved := Some False,
          saveError := Some (message_or e ''Unable to persist video locally.'')\<rparr>"
    by blast
  from e(1) f have "e = ErrorObject ''Failed to fetch video (404)''" by simp
  with e(4) have "saveError (?ys ! 0) = Some ''Failed to fetch video (404)''"
    by (simp add: sample_job_def new_job_def message_or_def)
  moreover from e(2) have "map status ?ys = [Success]" by (simp add: sample_job_def)
  moreover from e(3) have "map videoUrl ?ys = [Some ''https://cdn/clip'']" by simp
  ultimately show ?thesis using f by blast
qed

section \<open>Properties of the persisted index\<close>



section \<open>Properties of rehydration\<close>


lemma string_of_Some: "string_of v = Some s \<longleftrightarrow> v = Some (JStr s)"
  by (auto simp: string_of_def split: option.splits json.splits)

lemma truthy_Some: "truthy v \<longleftrightarrow> (\<exists>s. v = Some s \<and> s \<noteq> [])"
  by (cases v) (simp_all add: truthy_def)

lemma rehydrate_admits:
  "rehydrate env k entry \<noteq> None \<longleftrightarrow>
     is_object entry \<and> truthy (string_of (get_prop entry ''localUrl'')) \<and>
     truthy (string_of (get_prop entry ''localKey''))"
  by (simp add: rehydrate_def Let_def)

lemma rehydrate_fields:
  assumes "rehydrate env k entry = Some job"
  shows "status job = Success" "attempts job = 1" "payload job = None"
    "saving job = Some False" "saved job = Some True"
    "localUrl job = string_of (get_prop entry ''localUrl'')"
    "localKey job = string_of (get_prop entry ''localKey'')"
  using assms by (auto simp: rehydrate_def Let_def split: if_splits)

lemma set_keep_jobs: "set (keep_jobs xs) = {j. Some j \<in> set xs}"
  by (induction xs) (auto split: option.splits)

lemma length_keep_jobs: "length (keep_jobs xs) \<le> length xs"
  by (induction xs) (auto split: option.splits)

lemma loadStoredJobs_array:
  assumes "has_window env" and "storage VIDEO_JOBS_STORAGE_KEY = Some item" and "item \<noteq> []"
    and "JSON_parse env item = Some (JArr entries)"
  shows "loadStoredJobs env storage =
    keep_jobs (map (\<lambda>(k, entry). rehydrate env k entry) (enumerate 0 entries))"
  using assms by (simp add: loadStoredJobs_def)

lemma loadStoredJobs_member:
  assumes "job \<in> set (loadStoredJobs env storage)"
  shows "\<exists>item entries k. has_window env \<and> storage VIDEO_JOBS_STORAGE_KEY = Some item \<and>
     item \<noteq> [] \<and> JSON_parse env item = Some (JArr entries) \<and> k < length entries \<and>
     rehydrate env k (entries ! k) = Some job"
proof -
  from assms have ne: "loadStoredJobs env storage \<noteq> []" by auto
  then have w: "has_window env" by (rule contrapos_np) (simp add: loadStoredJobs_def)
  from ne w obtain item where i: "storage VIDEO_JOBS_STORAGE_KEY = Some item"
    by (cases "storage VIDEO_JOBS_STORAGE_KEY") (auto simp: loadStoredJobs_def)
  from ne w i have n: "item \<noteq> []" by (auto simp: loadStoredJobs_def)
  from ne w i n obtain data where data: "JSON_parse env item = Some data"
    by (cases "JSON_parse env item") (auto simp: loadStoredJobs_def)
  from ne w i n data obtain entries where entries: "data = JArr entries"
    by (cases data) (auto simp: loadStoredJobs_def)
  note item = w i n
  from item data entries have "loadStoredJobs env storage =
      keep_jobs (map (\<lambda>(k, entry). rehydrate env k entry) (enumerate 0 entries))"
    by (simp add: loadStoredJobs_array)
  with assms
  have "Some job \<in> set (map (\<lambda>(k, entry). rehydrate env k entry) (enumerate 0 entries))"
    by (simp add: set_keep_jobs)
  then obtain k entry where "(k, entry) \<in> set (enumerate 0 entries)"
      "rehydrate env k entry = Some job"
    by auto
  then have "k < length entries" "rehydrate env k (entries ! k) = Some job"
    by (auto simp: in_set_enumerate_eq)
  with item data entries show ?thesis by blast
qed

lemma loadStoredJobs_empty:
  "\<not> has_window env \<Longrightarrow> loadStoredJobs env storage = []"
  "storage VIDEO_JOBS_STORAGE_KEY = None \<Longrightarrow> loadStoredJobs env storage = []"
  "storage VIDEO_JOBS_STORAGE_KEY = Some item \<Longrightarrow> JSON_parse env item = None \<Longrightarrow>
     loadStoredJobs env storage = []"
  "storage VIDEO_JOBS_STORAGE_KEY = Some item \<Longrightarrow> JSON_parse env item = Some data \<Longrightarrow>
     \<forall>entries. data \<noteq> JArr entries \<Longrightarrow> loadStoredJobs env storage = []"
  by (auto simp: loadStoredJobs_def split: json.splits)

text \<open>
  C3: \<open>loadStoredJobs\<close> admits an entry of the persisted index exactly when the entry is an
  object that carries \<open>localKey\<close> and \<open>localUrl\<close>, both strings and both not empty; so every
  job it returns comes from an entry with a string \<open>localKey\<close> and a string \<open>localUrl\<close>, which
  the job keeps. Every other entry is dropped. With no stored text, with a text that
  \<open>JSON.parse\<close> rejects, or with a text that parses to something other than an array, the
  result is the empty list. The function is total: on an array it returns a list no longer
  than the array.
\<close>

theorem C3_rehydration_admits:
  "(rehydrate env k entry \<noteq> None \<longleftrightarrow>
      is_object entry \<and>
      (\<exists>key. get_prop entry ''localKey'' = Some (JStr key) \<and> key \<noteq> []) \<and>
      (\<exists>url. get_prop entry ''localUrl'' = Some (JStr url) \<and> url \<noteq> [])) \<and>
   (job \<in> set (loadStoredJobs env storage) \<longrightarrow>
      (\<exists>item entries n key url.
         storage VIDEO_JOBS_STORAGE_KEY = Some item \<and>
         JSON_parse env item = Some (JArr entries) \<and> n < length entries \<and>
         rehydrate env n (entries ! n) = Some job \<and>
         get_prop (entries ! n) ''localKey'' = Some (JStr key) \<and> localKey job = Some key \<and>
         get_prop (entries ! n) ''localUrl'' = Some (JStr url) \<and> localUrl job = Some url)) \<and>
   (storage1 VIDEO_JOBS_STORAGE_KEY = None \<longrightarrow> loadStoredJobs env storage1 = []) \<and>
   (storage2 VIDEO_JOBS_STORAGE_KEY = Some item2 \<and> JSON_parse env item2 = None \<longrightarrow>
      loadStoredJobs env storage2 = []) \<and>
   (storage3 VIDEO_JOBS_STORAGE_KEY = Some item3 \<and> JSON_parse env item3 = Some data \<and>
      (\<forall>entries. data \<noteq> JArr entries) \<longrightarrow> loadStoredJobs env storage3 = []) \<and>
   (storage4 VIDEO_JOBS_STORAGE_KEY = Some item4 \<and>
      JSON_parse env item4 = Some (JArr entries4) \<longrightarrow>
      length (loadStoredJobs env storage4) \<le> length entries4)"
proof -
  have admit: "rehydrate env k entry \<noteq> None \<longleftrightarrow>
      is_object entry \<and>
      (\<exists>key. get_prop entry ''localKey'' = Some (JStr key) \<and> key \<noteq> []) \<and>
      (\<exists>url. get_prop entry ''localUrl'' = Some (JStr url) \<and> url \<noteq> [])"
    by (simp only: rehydrate_admits truthy_Some string_of_Some) blast
  have member: "\<exists>item entries n key url.
         storage VIDEO_JOBS_STORAGE_KEY = Some item \<and>
         JSON_parse env item = Some (JArr entries) \<and> n < length entries \<and>
         rehydrate env n (entries ! n) = Some job \<and>
         get_prop (entries ! n) ''localKey'' = Some (JStr key) \<and> localKey job = Some key \<and>
         get_prop (entries ! n) ''localUrl'' = Some (JStr url) \<and> localUrl job = Some url"
    if "job \<in> set (loadStoredJobs env storage)"
  proof -
    from loadStoredJobs_member [OF that] obtain item entries n where
      *: "storage VIDEO_JOBS_STORAGE_KEY = Some item" "JSON_parse env item = Some (JArr entries)"
         "n < length entries" "rehydrate env n (entries ! n) = Some job"
      by blast
    from *(4) have "truthy (string_of (get_prop (entries ! n) ''localUrl'')) \<and>
        truthy (string_of (get_prop (entries ! n) ''localKey''))"
      using rehydrate_admits [of env n "entries ! n"] by simp
    then obtain key url where
      ku: "string_of (get_prop (entries ! n) ''localKey'') = Some key"
          "string_of (get_prop (entries ! n) ''localUrl'') = Some url"
      by (auto simp: truthy_Some)
    with rehydrate_fields(6,7) [OF *(4)] have "localKey job = Some key" "localUrl job = Some url"
      by simp_all
    with * ku show ?thesis by (auto simp: string_of_Some)
  qed
  have bound: "length (loadStoredJobs env storage4) \<le> length entries4"
    if "storage4 VIDEO_JOBS_STORAGE_KEY = Some item4" "JSON_parse env item4 = Some (JArr entries4)"
  proof (cases "has_window env \<and> item4 \<noteq> []")
    case True
    with that have "loadStoredJobs env storage4 =
        keep_jobs (map (\<lambda>(k, entry). rehydrate env k entry) (enumerate 0 entries4))"
      by (simp add: loadStoredJobs_array)
    moreover have "length (keep_jobs (map (\<lambda>(k, entry). rehydrate env k entry)
        (enumerate 0 entries4))) \<le> length entries4"
      using length_keep_jobs [of "map (\<lambda>(k, entry). rehydrate env k entry) (enumerate 0 entries4)"]
      by simp
    ultimately show ?thesis by simp
  next
    case False
    with that show ?thesis by (auto simp: loadStoredJobs_def)
  qed
  from admit member loadStoredJobs_empty(2) [of storage1 env]
    loadStoredJobs_empty(3) [of storage2 item2 env]
    loadStoredJobs_empty(4) [of storage3 item3 env data] bound
  show ?thesis by blast
qed

theorem C3_rehydration_admits_witness:
  "rehydrate sample_browser 0
     (JObj [(''localKey'', JStr ''a.mp4''), (''localUrl'', JStr ''/assets/a.mp4'')]) \<noteq> None \<and>
   rehydrate sample_browser 1 (JObj [(''localKey'', JStr ''a.mp4'')]) = None \<and>
   length (loadStoredJobs sample_browser (sample_storage ''<stored index>'')) = 1 \<and>
   localKey (hd (loadStoredJobs sample_browser (sample_storage ''<stored index>'')))
     = Some ''downloads-kling-2-5-pro-20231114-k3x9qa.mp4'' \<and>
   loadStoredJobs sample_browser Map.empty = [] \<and>
   loadStoredJobs sample_browser (sample_storage ''not json'') = [] \<and>
   loadStoredJobs sample_browser (sample_storage ''{}'') = []"
proof -
  let ?full = "JObj [(''localKey'', JStr ''a.mp4''), (''localUrl'', JStr ''/assets/a.mp4'')]"
  let ?part = "JObj [(''localKey'', JStr ''a.mp4'')]"
  let ?st = "sample_storage ''<stored index>''"
  let ?job = "hd (loadStoredJobs sample_browser ?st)"
  have len: "length (loadStoredJobs sample_browser ?st) = 1" by code_simp
  then have mem: "?job \<in> set (loadStoredJobs sample_browser ?st)"
    by (cases "loadStoredJobs sample_browser ?st") simp_all
  have full: "is_object ?full \<and>
      (\<exists>key. get_prop ?full ''localKey'' = Some (JStr key) \<and> key \<noteq> []) \<and>
      (\<exists>url. get_prop ?full ''localUrl'' = Some (JStr url) \<and> url \<noteq> [])"
    by (simp add: is_object_def get_prop_def)
  have part: "\<not> (\<exists>url. get_prop ?part ''localUrl'' = Some (JStr url) \<and> url \<noteq> [])"
    by (simp add: get_prop_def)
  have s1: "(Map.empty :: localStorage) VIDEO_JOBS_STORAGE_KEY = None" by simp
  have s2: "sample_storage ''not json'' VIDEO_JOBS_STORAGE_KEY = Some ''not json'' \<and>
      JSON_parse sample_browser ''not json'' = None"
    by (simp add: sample_storage_def sample_browser_def sample_parse_def)
  have s3: "sample_storage ''{}'' VIDEO_JOBS_STORAGE_KEY = Some ''{}'' \<and>
      JSON_parse sample_browser ''{}'' = Some (JObj []) \<and> (\<forall>entries. JObj [] \<noteq> JArr entries)"
    by (simp add: sample_storage_def sample_browser_def sample_parse_def)
  from C3_rehydration_admits [of sample_browser 0 ?full] full
  have a: "rehydrate sample_browser 0 ?full \<noteq> None" by blast
  from C3_rehydration_admits [of sample_browser 1 ?part] part
  have b: "rehydrate sample_browser 1 ?part = None" by blast
  note t = C3_rehydration_admits [of sample_browser 0 ?full ?job ?st Map.empty
      "sample_storage ''not json''" "''not json''" "sample_storage ''{}''" "''{}''" "JObj []"]
  from t mem obtain item entries n key where
    k: "?st VIDEO_JOBS_STORAGE_KEY = Some item" "JSON_parse sample_browser item = Some (JArr entries)"
       "n < length entries" "get_prop (entries ! n) ''localKey'' = Some (JStr key)"
       "localKey ?job = Some key"
    by blast
  have c: "localKey ?job = Some ''downloads-kling-2-5-pro-20231114-k3x9qa.mp4''" by code_simp
  from t s1 have d: "loadStoredJobs sample_browser Map.empty = []" by blast
  from t s2 have e: "loadStoredJobs sample_browser (sample_storage ''not json'') = []" by blast
  from t s3 have f: "loadStoredJobs sample_browser (sample_storage ''{}'') = []" by blast
  from a b len c d e f show ?thesis by blast
qed

section \<open>Properties of the prepare pipeline\<close>


lemma prepare_start_fails:
  assumes "upload_url startUpload = None"
  shows "prepareJobPayload jobId endFrame base startUpload endFile =
    ([UploadStart], Some (upload_error startUpload ''Unable to upload start frame.''))"
  using assms
  by (auto simp: prepareJobPayload_def upload_url_def upload_error_def
      split: settled.splits option.splits if_splits)

lemma prepare_no_end:
  assumes "upload_url startUpload = Some u" and "endFile = None \<or> \<not> isSupportEnabled endFrame"
  shows "prepareJobPayload jobId endFrame base startUpload endFile =
    ([UploadStart, Enqueue jobId (base\<lparr>start_frame_url := u\<rparr>)], None)"
  using assms
  by (auto simp: prepareJobPayload_def upload_url_def Let_def
      split: settled.splits option.splits if_splits)

lemma prepare_end_fails:
  assumes "upload_url startUpload = Some u" and "endFile = Some endUpload"
    and "isSupportEnabled endFrame" and "upload_url endUpload = None"
  shows "prepareJobPayload jobId endFrame base startUpload endFile =
    ([UploadStart, UploadEnd], Some (upload_error endUpload ''Unable to upload end frame.''))"
  using assms
  by (auto simp: prepareJobPayload_def upload_url_def upload_error_def Let_def
      split: settled.splits option.splits if_splits)

lemma prepare_both:
  assumes "upload_url startUpload = Some u" and "endFile = Some endUpload"
    and "isSupportEnabled endFrame" and "upload_url endUpload = Some v"
  shows "prepareJobPayload jobId endFrame base startUpload endFile =
    ([UploadStart, UploadEnd,
      Enqueue jobId (base\<lparr>start_frame_url := u, end_frame_url := Some v\<rparr>)], None)"
  using assms
  by (auto simp: prepareJobPayload_def upload_url_def Let_def
      split: settled.splits option.splits if_splits)

lemma settle_thrown:
  assumes "\<forall>c \<in> set calls. c = UploadStart \<or> c = UploadEnd"
  shows "handleGenerate_settle jobId (calls, Some e) xs =
    notifyJobUpdate jobId
      (\<lambda>job. job\<lparr>status := Error, error := Some (message_or e ''Upload failed.'')\<rparr>) xs"
proof -
  from assms have "foldl run_call xs calls = xs"
    by (induction calls arbitrary: xs) (auto simp: run_call_def)
  then show ?thesis by (simp add: handleGenerate_settle_def)
qed

lemma settle_enqueued:
  assumes "\<forall>c \<in> set calls. c = UploadStart \<or> c = UploadEnd"
  shows "handleGenerate_settle jobId (calls @ [Enqueue jobId pl], None) xs = enqueueJob jobId pl xs"
proof -
  from assms have "foldl run_call xs calls = xs"
    by (induction calls arbitrary: xs) (auto simp: run_call_def)
  then show ?thesis by (simp add: handleGenerate_settle_def run_call_def)
qed

lemma enqueueJob_length [simp]: "length (enqueueJob i pl xs) = length xs"
  by (simp add: enqueueJob_def)

lemma enqueueJob_nth:
  "n < length xs \<Longrightarrow> enqueueJob i pl xs ! n =
     (if id' (xs ! n) = i then (xs ! n)\<lparr>status := Queued, payload := Some pl\<rparr> else xs ! n)"
  by (simp add: enqueueJob_def)

text \<open>The four ways the pipeline can go, with what \<open>handleGenerate\<close> then does to the list.\<close>

lemma pipeline_start_fails:
  assumes "upload_url startUpload = None"
  shows "prepareJobPayload jobId endFrame base startUpload endFile =
      ([UploadStart], Some (upload_error startUpload ''Unable to upload start frame.''))"
    and "handleGenerate_settle jobId (prepareJobPayload jobId endFrame base startUpload endFile) xs =
      notifyJobUpdate jobId (\<lambda>job. job\<lparr>status := Error, error := Some (message_or
        (upload_error startUpload ''Unable to upload start frame.'') ''Upload failed.'')\<rparr>) xs"
  using assms by (simp_all add: prepare_start_fails settle_thrown)

lemma pipeline_end_fails:
  assumes "upload_url startUpload = Some u" and "endFile = Some endUpload"
    and "isSupportEnabled endFrame" and "upload_url endUpload = None"
  shows "prepareJobPayload jobId endFrame base startUpload endFile =
      ([UploadStart, UploadEnd], Some (upload_error endUpload ''Unable to upload end frame.''))"
    and "handleGenerate_settle jobId (prepareJobPayload jobId endFrame base startUpload endFile) xs =
      notifyJobUpdate jobId (\<lambda>job. job\<lparr>status := Error, error := Some (message_or
        (upload_error endUpload ''Unable to upload end frame.'') ''Upload failed.'')\<rparr>) xs"
  using assms by (simp_all add: prepare_end_fails settle_thrown)

lemma pipeline_no_end:
  assumes "upload_url startUpload = Some u" and "endFile = None \<or> \<not> isSupportEnabled endFrame"
  shows "prepareJobPayload jobId endFrame base startUpload endFile =
      ([UploadStart, Enqueue jobId (base\<lparr>start_frame_url := u\<rparr>)], None)"
    and "handleGenerate_settle jobId (prepareJobPayload jobId endFrame base startUpload endFile) xs =
      enqueueJob jobId (base\<lparr>start_frame_url := u\<rparr>) xs"
proof -
  show a: "prepareJobPayload jobId endFrame base startUpload endFile =
      ([UploadStart, Enqueue jobId (base\<lparr>start_frame_url := u\<rparr>)], None)"
    using assms by (rule prepare_no_end)
  show "handleGenerate_settle jobId (prepareJobPayload jobId endFrame base startUpload endFile) xs =
      enqueueJob jobId (base\<lparr>start_frame_url := u\<rparr>) xs"
    using settle_enqueued [of "[UploadStart]" jobId "base\<lparr>start_frame_url := u\<rparr>" xs]
    by (simp add: a)
qed

lemma pipeline_both:
  assumes "upload_url startUpload = Some u" and "endFile = Some endUpload"
    and "isSupportEnabled endFrame" and "upload_url endUpload = Some v"
  shows "prepareJobPayload jobId endFrame base startUpload endFile =
      ([UploadStart, UploadEnd,
        Enqueue jobId (base\<lparr>start_frame_url := u, end_frame_url := Some v\<rparr>)], None)"
    and "handleGenerate_settle jobId (prepareJobPayload jobId endFrame base startUpload endFile) xs =
      enqueueJob jobId (base\<lparr>start_frame_url := u, end_frame_url := Some v\<rparr>) xs"
proof -
  show a: "prepareJobPayload jobId endFrame base startUpload endFile =
      ([UploadStart, UploadEnd,
        Enqueue jobId (base\<lparr>start_frame_url := u, end_frame_url := Some v\<rparr>)], None)"
    using assms by (rule prepare_both)
  show "handleGenerate_settle jobId (prepareJobPayload jobId endFrame base startUpload endFile) xs =
      enqueueJob jobId (base\<lparr>start_frame_url := u, end_frame_url := Some v\<rparr>) xs"
    using settle_enqueued [of "[UploadStart, UploadEnd]" jobId
        "base\<lparr>start_frame_url := u, end_frame_url := Some v\<rparr>" xs]
    by (simp add: a)
qed

lemma pipeline_cases:
  obtains (start_fails) "upload_url startUpload = None"
  | (end_fails) u endUpload where "upload_url startUpload = Some u" "endFile = Some endUpload"
      "isSupportEnabled endFrame" "upload_url endUpload = None"
  | (no_end) u where "upload_url startUpload = Some u"
      "endFile = None \<or> \<not> isSupportEnabled endFrame"
  | (both) u endUpload v where "upload_url startUpload = Some u" "endFile = Some endUpload"
      "isSupportEnabled endFrame" "upload_url endUpload = Some v"
proof (cases "upload_url startUpload")
  case None
  then show ?thesis by (rule start_fails)
next
  case (Some u)
  show ?thesis
  proof (cases "endFile = None \<or> \<not> isSupportEnabled endFrame")
    case True
    with Some show ?thesis by (rule no_end)
  next
    case False
    then obtain endUpload where e: "endFile = Some endUpload" "isSupportEnabled endFrame"
      by auto
    show ?thesis
    proof (cases "upload_url endUpload")
      case None
      with Some e show ?thesis by (intro end_fails)
    next
      case (Some v)
      with \<open>upload_url startUpload = Some u\<close> e show ?thesis by (intro both)
    qed
  qed
qed

text \<open>Enqueue is called exactly when the pipeline does not throw.\<close>

lemma pipeline_enqueue_iff:
  "(\<exists>pl. Enqueue jobId pl \<in> set (fst (prepareJobPayload jobId endFrame base startUpload endFile)))
     \<longleftrightarrow> snd (prepareJobPayload jobId endFrame base startUpload endFile) = None"
  by (rule pipeline_cases [where startUpload = startUpload and endFile = endFile
      and endFrame = endFrame])
    (simp_all add: prepare_start_fails prepare_end_fails prepare_no_end prepare_both)

lemma pipeline_succeeds_iff:
  "snd (prepareJobPayload jobId endFrame base startUpload endFile) = None \<longleftrightarrow>
     upload_url startUpload \<noteq> None \<and>
     (endFile \<noteq> None \<and> isSupportEnabled endFrame \<longrightarrow>
        (\<exists>endUpload. endFile = Some endUpload \<and> upload_url endUpload \<noteq> None))"
  by (rule pipeline_cases [where startUpload = startUpload and endFile = endFile
      and endFrame = endFrame])
    (auto simp: prepare_start_fails prepare_end_fails prepare_no_end prepare_both)

lemma pipeline_end_attempted:
  "UploadEnd \<in> set (fst (prepareJobPayload jobId endFrame base startUpload endFile)) \<longleftrightarrow>
     upload_url startUpload \<noteq> None \<and> endFile \<noteq> None \<and> isSupportEnabled endFrame"
  by (rule pipeline_cases [where startUpload = startUpload and endFile = endFile
      and endFrame = endFrame])
    (auto simp: prepare_start_fails prepare_end_fails prepare_no_end prepare_both)

lemma pipeline_thrown_effect:
  assumes "snd (prepareJobPayload jobId endFrame base startUpload endFile) = Some e"
  shows "(\<forall>i pl. Enqueue i pl \<notin> set (fst (prepareJobPayload jobId endFrame base startUpload endFile))) \<and>
    handleGenerate_settle jobId (prepareJobPayload jobId endFrame base startUpload endFile) xs =
      notifyJobUpdate jobId
        (\<lambda>job. job\<lparr>status := Error, error := Some (message_or e ''Upload failed.'')\<rparr>) xs"
proof (rule pipeline_cases [where startUpload = startUpload and endFile = endFile
      and endFrame = endFrame])
  assume a: "upload_url startUpload = None"
  with assms have "e = upload_error startUpload ''Unable to upload start frame.''"
    by (simp add: prepare_start_fails)
  with a show ?thesis
    by (simp add: prepare_start_fails settle_thrown)
next
  fix u endUpload
  assume a: "upload_url startUpload = Some u" "endFile = Some endUpload"
    "isSupportEnabled endFrame" "upload_url endUpload = None"
  with assms have "e = upload_error endUpload ''Unable to upload end frame.''"
    by (simp add: prepare_end_fails)
  with a show ?thesis
    by (simp add: prepare_end_fails settle_thrown)
next
  fix u
  assume "upload_url startUpload = Some u" "endFile = None \<or> \<not> isSupportEnabled endFrame"
  with assms show ?thesis by (simp add: prepare_no_end)
next
  fix u endUpload v
  assume "upload_url startUpload = Some u" "endFile = Some endUpload"
    "isSupportEnabled endFrame" "upload_url endUpload = Some v"
  with assms show ?thesis by (simp add: prepare_both)
qed

lemma pipeline_success_effect:
  assumes "snd (prepareJobPayload jobId endFrame base startUpload endFile) = None"
  shows "\<exists>u. upload_url startUpload = Some u \<and>
    fst (prepareJobPayload jobId endFrame base startUpload endFile) =
      (if endFile \<noteq> None \<and> isSupportEnabled endFrame then [UploadStart, UploadEnd]
       else [UploadStart]) @
      [Enqueue jobId (base\<lparr>start_frame_url := u,
         end_frame_url := (if endFile \<noteq> None \<and> isSupportEnabled endFrame
                           then upload_url (the endFile) else end_frame_url base)\<rparr>)] \<and>
    handleGenerate_settle jobId (prepareJobPayload jobId endFrame base startUpload endFile) xs =
      enqueueJob jobId (base\<lparr>start_frame_url := u,
         end_frame_url := (if endFile \<noteq> None \<and> isSupportEnabled endFrame
                           then upload_url (the endFile) else end_frame_url base)\<rparr>) xs"
proof (rule pipeline_cases [where startUpload = startUpload and endFile = endFile
      and endFrame = endFrame])
  assume "upload_url startUpload = None"
  with assms show ?thesis by (simp add: prepare_start_fails)
next
  fix u endUpload
  assume "upload_url startUpload = Some u" "endFile = Some endUpload"
    "isSupportEnabled endFrame" "upload_url endUpload = None"
  with assms show ?thesis by (simp add: prepare_end_fails)
next
  fix u
  assume a: "upload_url startUpload = Some u" "endFile = None \<or> \<not> isSupportEnabled endFrame"
  show ?thesis
  proof (cases "endFile \<noteq> None \<and> isSupportEnabled endFrame")
    case True
    with a(2) show ?thesis by blast
  next
    case False
    with a(1) pipeline_no_end [OF a, of jobId base] show ?thesis by auto
  qed
next
  fix u endUpload v
  assume a: "upload_url startUpload = Some u" "endFile = Some endUpload"
    "isSupportEnabled endFrame" "upload_url endUpload = Some v"
  with pipeline_both [OF a, of jobId base] show ?thesis by simp
qed

text \<open>
  C5: the prepare pipeline uploads the start reference first; the end reference is uploaded
  only when an end file was supplied, the end-frame capability of the model is enabled and
  the start upload gave a URL. The pipeline ends without an exception exactly when every
  upload it attempts gives a URL, and \<open>enqueueJob\<close> is called exactly then, once and last, with
  the base payload completed by the URLs. When the start upload or the end upload is rejected
  or gives no URL, the pipeline throws (the rejection, or \<open>Unable to upload start frame.\<close>,
  \<open>Unable to upload end frame.\<close>), \<open>enqueueJob\<close> is not called, and \<open>handleGenerate\<close> sets the
  status of the job to \<open>Error\<close> and its error to the message; nothing else changes, so the job
  stays without a payload.
\<close>

theorem C5_prepare_pipeline:
  "(let outcome = prepareJobPayload jobId endFrame base startUpload endFile;
        after = handleGenerate_settle jobId outcome xs;
        end_wanted = (endFile \<noteq> None \<and> isSupportEnabled endFrame)
    in (snd outcome = None \<longleftrightarrow>
          upload_url startUpload \<noteq> None \<and>
          (end_wanted \<longrightarrow> (\<exists>endUpload. endFile = Some endUpload \<and> upload_url endUpload \<noteq> None))) \<and>
       (UploadEnd \<in> set (fst outcome) \<longleftrightarrow> upload_url startUpload \<noteq> None \<and> end_wanted) \<and>
       ((\<exists>pl. Enqueue jobId pl \<in> set (fst outcome)) \<longleftrightarrow> snd outcome = None) \<and>
       (upload_url startUpload = None \<longrightarrow>
          outcome = ([UploadStart],
                     Some (upload_error startUpload ''Unable to upload start frame.''))) \<and>
       (\<forall>endUpload. upload_url startUpload \<noteq> None \<and> endFile = Some endUpload \<and>
          isSupportEnabled endFrame \<and> upload_url endUpload = None \<longrightarrow>
          outcome = ([UploadStart, UploadEnd],
                     Some (upload_error endUpload ''Unable to upload end frame.''))) \<and>
       (\<forall>e. snd outcome = Some e \<longrightarrow>
          (\<forall>i pl. Enqueue i pl \<notin> set (fst outcome)) \<and>
          length after = length xs \<and>
          (\<forall>n < length xs.
             after ! n =
               (if id' (xs ! n) = jobId
                then (xs ! n)\<lparr>status := Error, error := Some (message_or e ''Upload failed.'')\<rparr>
                else xs ! n))) \<and>
       (snd outcome = None \<longrightarrow>
          (\<exists>u pl. upload_url startUpload = Some u \<and>
             pl = base\<lparr>start_frame_url := u,
                       end_frame_url := (if end_wanted then upload_url (the endFile)
                                         else end_frame_url base)\<rparr> \<and>
             fst outcome = (if end_wanted then [UploadStart, UploadEnd] else [UploadStart])
                             @ [Enqueue jobId pl] \<and>
             length after = length xs \<and>
             (\<forall>n < length xs.
                after ! n =
                  (if id' (xs ! n) = jobId
                   then (xs ! n)\<lparr>status := Queued, payload := Some pl\<rparr>
                   else xs ! n)))))"
proof -
  let ?o = "prepareJobPayload jobId endFrame base startUpload endFile"
  let ?after = "handleGenerate_settle jobId ?o xs"
  let ?w = "endFile \<noteq> None \<and> isSupportEnabled endFrame"
  have a: "snd ?o = None \<longleftrightarrow> upload_url startUpload \<noteq> None \<and>
      (?w \<longrightarrow> (\<exists>endUpload. endFile = Some endUpload \<and> upload_url endUpload \<noteq> None))"
    by (rule pipeline_succeeds_iff)
  have b: "UploadEnd \<in> set (fst ?o) \<longleftrightarrow> upload_url startUpload \<noteq> None \<and> ?w"
    using pipeline_end_attempted [of jobId endFrame base startUpload endFile] by blast
  have c: "(\<exists>pl. Enqueue jobId pl \<in> set (fst ?o)) \<longleftrightarrow> snd ?o = None"
    by (rule pipeline_enqueue_iff)
  have d: "upload_url startUpload = None \<longrightarrow>
      ?o = ([UploadStart], Some (upload_error startUpload ''Unable to upload start frame.''))"
    by (simp add: prepare_start_fails)
  have e: "\<forall>endUpload. upload_url startUpload \<noteq> None \<and> endFile = Some endUpload \<and>
      isSupportEnabled endFrame \<and> upload_url endUpload = None \<longrightarrow>
      ?o = ([UploadStart, UploadEnd], Some (upload_error endUpload ''Unable to upload end frame.''))"
    by (auto simp: prepare_end_fails)
  have f: "\<forall>e. snd ?o = Some e \<longrightarrow>
      (\<forall>i pl. Enqueue i pl \<notin> set (fst ?o)) \<and> length ?after = length xs \<and>
      (\<forall>n < length xs. ?after ! n =
         (if id' (xs ! n) = jobId
          then (xs ! n)\<lparr>status := Error, error := Some (message_or e ''Upload failed.'')\<rparr>
          else xs ! n))"
  proof (intro allI impI)
    fix e assume "snd ?o = Some e"
    from pipeline_thrown_effect [OF this, of xs] show
      "(\<forall>i pl. Enqueue i pl \<notin> set (fst ?o)) \<and> length ?after = length xs \<and>
      (\<forall>n < length xs. ?after ! n =
         (if id' (xs ! n) = jobId
          then (xs ! n)\<lparr>status := Error, error := Some (message_or e ''Upload failed.'')\<rparr>
          else xs ! n))"
      by (simp add: notifyJobUpdate_nth)
  qed
  have g: "snd ?o = None \<longrightarrow>
      (\<exists>u pl. upload_url startUpload = Some u \<and>
         pl = base\<lparr>start_frame_url := u,
                   end_frame_url := (if ?w then upload_url (the endFile) else end_frame_url base)\<rparr> \<and>
         fst ?o = (if ?w then [UploadStart, UploadEnd] else [UploadStart]) @ [Enqueue jobId pl] \<and>
         length ?after = length xs \<and>
         (\<forall>n < length xs. ?after ! n =
            (if id' (xs ! n) = jobId then (xs ! n)\<lparr>status := Queued, payload := Some pl\<rparr>
             else xs ! n)))"
  proof
    assume "snd ?o = None"
    from pipeline_success_effect [OF this, of xs] obtain u where
      u: "upload_url startUpload = Some u"
         "fst ?o = (if ?w then [UploadStart, UploadEnd] else [UploadStart]) @
            [Enqueue jobId (base\<lparr>start_frame_url := u,
               end_frame_url := (if ?w then upload_url (the endFile) else end_frame_url base)\<rparr>)]"
         "?after = enqueueJob jobId (base\<lparr>start_frame_url := u,
               end_frame_url := (if ?w then upload_url (the endFile) else end_frame_url base)\<rparr>) xs"
      by blast
    from u(3) have "length ?after = length xs \<and> (\<forall>n < length xs. ?after ! n =
        (if id' (xs ! n) = jobId
         then (xs ! n)\<lparr>status := Queued, payload := Some (base\<lparr>start_frame_url := u,
               end_frame_url := (if ?w then upload_url (the endFile) else end_frame_url base)\<rparr>)\<rparr>
         else xs ! n))"
      by (simp add: enqueueJob_nth)
    with u(1,2) show "\<exists>u pl. upload_url startUpload = Some u \<and>
         pl = base\<lparr>start_frame_url := u,
                   end_frame_url := (if ?w then upload_url (the endFile) else end_frame_url base)\<rparr> \<and>
         fst ?o = (if ?w then [UploadStart, UploadEnd] else [UploadStart]) @ [Enqueue jobId pl] \<and>
         length ?after = length xs \<and>
         (\<forall>n < length xs. ?after ! n =
            (if id' (xs ! n) = jobId then (xs ! n)\<lparr>status := Queued, payload := Some pl\<rparr>
             else xs ! n))"
      by blast
  qed
  from a b c d e f g show ?thesis unfolding Let_def by blast
qed

theorem C5_prepare_pipeline_witness:
  "prepareJobPayload ''job_a'' (Flag True) sample_payload (Resolved (UString ''https://up/start.png''))
     (Some (Rejected (ErrorObject ''network down'')))
     = ([UploadStart, UploadEnd], Some (ErrorObject ''network down'')) \<and>
   handleGenerate_settle ''job_a''
     (prepareJobPayload ''job_a'' (Flag True) sample_payload
        (Resolved (UString ''https://up/start.png''))
        (Some (Rejected (ErrorObject ''network down''))))
     [sample_job ''job_a'' Uploading None]
     = [(sample_job ''job_a'' Uploading None)\<lparr>status := Error, error := Some ''network down''\<rparr>] \<and>
   prepareJobPayload ''job_a'' (Flag True) sample_payload (Resolved (UString ''https://up/start.png''))
     (Some (Resolved (UString ''https://up/end.png'')))
     = ([UploadStart, UploadEnd,
         Enqueue ''job_a'' (sample_payload\<lparr>start_frame_url := ''https://up/start.png'',
           end_frame_url := Some ''https://up/end.png''\<rparr>)], None) \<and>
   handleGenerate_settle ''job_a''
     (prepareJobPayload ''job_a'' (Flag True) sample_payload
        (Resolved (UString ''https://up/start.png''))
        (Some (Resolved (UString ''https://up/end.png''))))
     [sample_job ''job_a'' Uploading None]
     = [sample_job ''job_a'' Queued
          (Some (sample_payload\<lparr>start_frame_url := ''https://up/start.png'',
             end_frame_url := Some ''https://up/end.png''\<rparr>))]"
proof -
  let ?start = "Resolved (UString ''https://up/start.png'')"
  let ?bad = "Rejected (ErrorObject ''network down'')"
  let ?good = "Resolved (UString ''https://up/end.png'')"
  let ?xs = "[sample_job ''job_a'' Uploading None]"
  let ?o1 = "prepareJobPayload ''job_a'' (Flag True) sample_payload ?start (Some ?bad)"
  let ?o2 = "prepareJobPayload ''job_a'' (Flag True) sample_payload ?start (Some ?good)"
  have urls: "upload_url ?start = Some ''https://up/start.png''" "upload_url ?bad = None"
    "upload_url ?good = Some ''https://up/end.png''"
    by (simp_all add: upload_url_def extractUploadUrl_def)
  have on: "isSupportEnabled (Flag True)" by (simp add: isSupportEnabled_def)
  note t1 = C5_prepare_pipeline [of "''job_a''" "Flag True" sample_payload ?start "Some ?bad" ?xs,
      unfolded Let_def]
  note t2 = C5_prepare_pipeline [of "''job_a''" "Flag True" sample_payload ?start "Some ?good" ?xs,
      unfolded Let_def]
  from t1 urls on have o1: "?o1 = ([UploadStart, UploadEnd],
      Some (upload_error ?bad ''Unable to upload end frame.''))"
    by simp
  then have e1: "snd ?o1 = Some (ErrorObject ''network down'')"
    by (simp add: upload_error_def)
  with t1 have "length (handleGenerate_settle ''job_a'' ?o1 ?xs) = length ?xs \<and>
      (\<forall>n < length ?xs. handleGenerate_settle ''job_a'' ?o1 ?xs ! n =
        (if id' (?xs ! n) = ''job_a''
         then (?xs ! n)\<lparr>status := Error,
                error := Some (message_or (ErrorObject ''network down'') ''Upload failed.'')\<rparr>
         else ?xs ! n))"
    by blast
  then have a1: "handleGenerate_settle ''job_a'' ?o1 ?xs =
      [(sample_job ''job_a'' Uploading None)\<lparr>status := Error, error := Some ''network down''\<rparr>]"
    by (cases "handleGenerate_settle ''job_a'' ?o1 ?xs")
      (simp_all add: sample_job_def new_job_def message_or_def)
  from t2 urls on have s2: "snd ?o2 = None" by simp
  with t2 obtain u pl where
    pl: "upload_url ?start = Some u"
      "pl = sample_payload\<lparr>start_frame_url := u,
         end_frame_url := (if Some ?good \<noteq> None \<and> isSupportEnabled (Flag True)
           then upload_url (the (Some ?good)) else end_frame_url sample_payload)\<rparr>"
      "fst ?o2 = (if Some ?good \<noteq> None \<and> isSupportEnabled (Flag True)
           then [UploadStart, UploadEnd] else [UploadStart]) @ [Enqueue ''job_a'' pl]"
      "length (handleGenerate_settle ''job_a'' ?o2 ?xs) = length ?xs"
      "\<forall>n < length ?xs. handleGenerate_settle ''job_a'' ?o2 ?xs ! n =
         (if id' (?xs ! n) = ''job_a'' then (?xs ! n)\<lparr>status := Queued, payload := Some pl\<rparr>
          else ?xs ! n)"
    by blast
  from pl(1,2) urls on have pl_eq: "pl = sample_payload\<lparr>start_frame_url := ''https://up/start.png'',
      end_frame_url := Some ''https://up/end.png''\<rparr>"
    by simp
  from pl(3) on s2 have o2: "?o2 = ([UploadStart, UploadEnd, Enqueue ''job_a'' pl], None)"
    by (simp add: prod_eq_iff)
  from pl(4,5) have a2: "handleGenerate_settle ''job_a'' ?o2 ?xs =
      [sample_job ''job_a'' Queued (Some pl)]"
    by (cases "handleGenerate_settle ''job_a'' ?o2 ?xs")
      (simp_all add: sample_job_def new_job_def)
  from o1 a1 o2 a2 show ?thesis
    by (simp add: pl_eq upload_error_def)
qed



section \<open>Properties of the scheduler\<close>

subsection \<open>Counting ids\<close>

lemma count_id_Cons: "count_id i (x # xs) = (if id' x = i then 1 else 0) + count_id i xs"
  by (simp add: count_id_def)

lemma count_id_append: "count_id i (xs @ ys) = count_id i xs + count_id i ys"
  by (simp add: count_id_def)

lemma count_id_fresh: "i \<notin> id' ` set xs \<Longrightarrow> count_id i xs = 0"
  by (auto simp: count_id_def filter_empty_conv)

lemma count_id_member: "x \<in> set xs \<Longrightarrow> 1 \<le> count_id (id' x) xs"
  by (induction xs) (auto simp: count_id_Cons)

lemma count_id_map:
  assumes "\<And>x. id' (f x) = id' x"
  shows "count_id i (map f xs) = count_id i xs"
  using assms by (induction xs) (simp_all add: count_id_Cons count_id_def)

lemma count_id_unique:
  assumes "count_id i xs \<le> 1" and "a \<in> set xs" and "b \<in> set xs"
    and "id' a = i" and "id' b = i"
  shows "a = b"
proof -
  let ?ys = "filter (\<lambda>job. id' job = i) xs"
  from assms have "a \<in> set ?ys" "b \<in> set ?ys" "length ?ys \<le> 1"
    by (simp_all add: count_id_def)
  then show ?thesis by (cases ?ys) auto
qed

lemma distinct_ids_filter:
  assumes "\<forall>x \<in> set xs. P x \<longrightarrow> count_id (id' x) xs \<le> 1"
  shows "distinct (map id' (filter P xs))"
  using assms
proof (induction xs)
  case Nil
  then show ?case by simp
next
  case (Cons x xs)
  have tail: "\<forall>y \<in> set xs. P y \<longrightarrow> count_id (id' y) xs \<le> 1"
  proof (intro ballI impI)
    fix y assume y: "y \<in> set xs" "P y"
    with Cons.prems have "count_id (id' y) (x # xs) \<le> 1" by simp
    then show "count_id (id' y) xs \<le> 1" by (simp add: count_id_Cons split: if_splits)
  qed
  then have ih: "distinct (map id' (filter P xs))" by (rule Cons.IH)
  show ?case
  proof (cases "P x")
    case False
    with ih show ?thesis by simp
  next
    case True
    have "id' x \<notin> id' ` set (filter P xs)"
    proof
      assume "id' x \<in> id' ` set (filter P xs)"
      then obtain y where y: "y \<in> set xs" "id' y = id' x" by auto
      from count_id_member [OF y(1)] y(2) have "1 \<le> count_id (id' x) xs" by simp
      moreover from Cons.prems True have "count_id (id' x) (x # xs) \<le> 1" by simp
      ultimately show False by (simp add: count_id_Cons)
    qed
    with True ih show ?thesis by simp
  qed
qed

subsection \<open>Running ids\<close>

lemma running_ids_Cons:
  "running_ids (x # xs) = (if status x = Running then {id' x} else {}) \<union> running_ids xs"
  by (auto simp: running_ids_def)

lemma running_ids_iff: "i \<in> running_ids xs \<longleftrightarrow> (\<exists>x \<in> set xs. status x = Running \<and> id' x = i)"
  by (auto simp: running_ids_def)

lemma set_notifyJobUpdate:
  "set (notifyJobUpdate i p xs) = (\<lambda>x. if id' x \<noteq> i then x else p x) ` set xs"
  by (simp add: notifyJobUpdate_def)

lemma set_enqueueJob:
  "set (enqueueJob i pl xs) =
     (\<lambda>x. if id' x = i then x\<lparr>status := Queued, payload := Some pl\<rparr> else x) ` set xs"
  by (simp add: enqueueJob_def)

lemma running_ids_notify:
  "j \<in> running_ids (notifyJobUpdate i p xs) \<longleftrightarrow>
     (\<exists>x \<in> set xs. (id' x \<noteq> i \<and> status x = Running \<and> id' x = j) \<or>
                    (id' x = i \<and> status (p x) = Running \<and> id' (p x) = j))"
proof -
  have "j \<in> running_ids (notifyJobUpdate i p xs) \<longleftrightarrow>
      (\<exists>x \<in> set xs. status (if id' x \<noteq> i then x else p x) = Running \<and>
                     id' (if id' x \<noteq> i then x else p x) = j)"
    unfolding running_ids_iff set_notifyJobUpdate by blast
  also have "\<dots> \<longleftrightarrow> (\<exists>x \<in> set xs. (id' x \<noteq> i \<and> status x = Running \<and> id' x = j) \<or>
                    (id' x = i \<and> status (p x) = Running \<and> id' (p x) = j))"
    by (rule bex_cong) auto
  finally show ?thesis .
qed

lemma running_ids_update_stopped:
  assumes id: "\<And>x. id' (p x) = id' x" and st: "\<And>x. status (p x) \<noteq> Running"
  shows "running_ids (notifyJobUpdate i p xs) = running_ids xs - {i}"
proof (rule set_eqI)
  fix j
  show "j \<in> running_ids (notifyJobUpdate i p xs) \<longleftrightarrow> j \<in> running_ids xs - {i}"
    unfolding running_ids_notify using st by (auto simp: running_ids_iff)
qed

lemma running_ids_update_same:
  assumes id: "\<And>x. id' (p x) = id' x" and st: "\<And>x. status (p x) = status x"
  shows "running_ids (notifyJobUpdate i p xs) = running_ids xs"
proof (rule set_eqI)
  fix j
  show "j \<in> running_ids (notifyJobUpdate i p xs) \<longleftrightarrow> j \<in> running_ids xs"
    unfolding running_ids_notify by (simp only: id st running_ids_iff) blast
qed

lemma running_ids_update_started:
  assumes id: "\<And>x. id' (p x) = id' x"
  shows "running_ids (notifyJobUpdate i p xs) \<subseteq> insert i (running_ids xs)"
proof
  fix j assume "j \<in> running_ids (notifyJobUpdate i p xs)"
  then have "\<exists>x \<in> set xs. (id' x \<noteq> i \<and> status x = Running \<and> id' x = j) \<or> id' x = j \<and> j = i"
    unfolding running_ids_notify by (simp only: id) blast
  then show "j \<in> insert i (running_ids xs)"
    using running_ids_iff [of j xs] by blast
qed

lemma running_ids_enqueue: "running_ids (enqueueJob i pl xs) = running_ids xs - {i}"
proof -
  have "enqueueJob i pl xs = notifyJobUpdate i (\<lambda>x. x\<lparr>status := Queued, payload := Some pl\<rparr>) xs"
    by (simp add: enqueueJob_def notifyJobUpdate_def)
  then show ?thesis by (simp add: running_ids_update_stopped)
qed

subsection \<open>The parts of the invariant under the updates of the job list\<close>

lemma notifyJobUpdate_map:
  "notifyJobUpdate i p xs = map (\<lambda>x. if id' x \<noteq> i then x else p x) xs"
  by (simp add: notifyJobUpdate_def)

lemma count_id_notify:
  assumes "\<And>x. id' (p x) = id' x"
  shows "count_id j (notifyJobUpdate i p xs) = count_id j xs"
  unfolding notifyJobUpdate_map by (rule count_id_map) (simp add: assms)

lemma enqueueJob_notify:
  "enqueueJob i pl xs = notifyJobUpdate i (\<lambda>x. x\<lparr>status := Queued, payload := Some pl\<rparr>) xs"
  by (simp add: enqueueJob_def notifyJobUpdate_def)

lemma unique_kept_update:
  assumes c: "\<forall>job \<in> set xs. payload job \<noteq> None \<or> id' job \<in> P \<longrightarrow> count_id (id' job) xs \<le> 1"
    and id: "\<And>x. id' (p x) = id' x"
    and pl: "\<And>x. id' x = i \<Longrightarrow> payload (p x) \<noteq> None \<Longrightarrow> payload x \<noteq> None \<or> i \<in> P"
    and sub: "P' \<subseteq> P"
  shows "\<forall>job \<in> set (notifyJobUpdate i p xs).
    payload job \<noteq> None \<or> id' job \<in> P' \<longrightarrow> count_id (id' job) (notifyJobUpdate i p xs) \<le> 1"
proof (intro ballI impI)
  fix job
  assume job: "job \<in> set (notifyJobUpdate i p xs)" and act: "payload job \<noteq> None \<or> id' job \<in> P'"
  from job obtain x where x: "x \<in> set xs" "job = (if id' x \<noteq> i then x else p x)"
    by (auto simp: set_notifyJobUpdate)
  from x(2) id have same: "id' job = id' x" by simp
  have "payload x \<noteq> None \<or> id' x \<in> P"
  proof (cases "id' x = i")
    case True
    with x(2) have "job = p x" by simp
    with act pl [OF True] same sub True show ?thesis by auto
  next
    case False
    with x(2) act sub show ?thesis by auto
  qed
  with c x(1) have "count_id (id' x) xs \<le> 1" by blast
  with same show "count_id (id' job) (notifyJobUpdate i p xs) \<le> 1"
    by (simp add: count_id_notify id)
qed

lemma unique_kept_Cons:
  assumes c: "\<forall>job \<in> set xs. payload job \<noteq> None \<or> id' job \<in> P \<longrightarrow> count_id (id' job) xs \<le> 1"
    and fresh: "id' new \<notin> id' ` set xs"
  shows "\<forall>job \<in> set (new # xs).
    payload job \<noteq> None \<or> id' job \<in> insert (id' new) P \<longrightarrow> count_id (id' job) (new # xs) \<le> 1"
proof (intro ballI impI)
  fix job
  assume job: "job \<in> set (new # xs)"
    and act: "payload job \<noteq> None \<or> id' job \<in> insert (id' new) P"
  show "count_id (id' job) (new # xs) \<le> 1"
  proof (cases "id' job = id' new")
    case True
    with fresh show ?thesis by (simp add: count_id_Cons count_id_fresh)
  next
    case False
    with job have "job \<in> set xs" by auto
    with c act False have "count_id (id' job) xs \<le> 1" by auto
    with False show ?thesis by (simp add: count_id_Cons)
  qed
qed

lemma payload_kept_passive:
  assumes d: "\<forall>job \<in> set xs. status job = Running \<or> status job = Queued \<longrightarrow> payload job \<noteq> None"
    and st: "\<And>x. status (p x) = status x \<or> (status (p x) \<noteq> Running \<and> status (p x) \<noteq> Queued)
               \<or> payload (p x) \<noteq> None"
    and pl: "\<And>x. payload x \<noteq> None \<Longrightarrow> payload (p x) \<noteq> None"
  shows "\<forall>job \<in> set (notifyJobUpdate i p xs).
    status job = Running \<or> status job = Queued \<longrightarrow> payload job \<noteq> None"
proof (intro ballI impI)
  fix job
  assume job: "job \<in> set (notifyJobUpdate i p xs)"
    and act: "status job = Running \<or> status job = Queued"
  from job obtain x where x: "x \<in> set xs" "job = (if id' x \<noteq> i then x else p x)"
    by (auto simp: set_notifyJobUpdate)
  show "payload job \<noteq> None"
  proof (cases "id' x = i")
    case False
    with x d act show ?thesis by auto
  next
    case True
    with x(2) have j: "job = p x" by simp
    from st [of x] consider "status (p x) = status x"
      | "status (p x) \<noteq> Running \<and> status (p x) \<noteq> Queued" | "payload (p x) \<noteq> None"
      by blast
    then show ?thesis
    proof cases
      case 1
      with act j have "status x = Running \<or> status x = Queued" by simp
      with d x(1) have "payload x \<noteq> None" by blast
      with pl j show ?thesis by simp
    next
      case 2
      with act j show ?thesis by simp
    next
      case 3
      with j show ?thesis by simp
    qed
  qed
qed

lemma payload_kept_active:
  assumes c: "\<forall>x \<in> set xs. payload x \<noteq> None \<or> id' x \<in> P \<longrightarrow> count_id (id' x) xs \<le> 1"
    and d: "\<forall>x \<in> set xs. status x = Running \<or> status x = Queued \<longrightarrow> payload x \<noteq> None"
    and job: "job \<in> set xs" "payload job \<noteq> None"
    and pl: "\<And>x. payload (p x) = payload x"
  shows "\<forall>x \<in> set (notifyJobUpdate (id' job) p xs).
    status x = Running \<or> status x = Queued \<longrightarrow> payload x \<noteq> None"
proof (intro ballI impI)
  fix y
  assume y: "y \<in> set (notifyJobUpdate (id' job) p xs)"
    and act: "status y = Running \<or> status y = Queued"
  from y obtain x where x: "x \<in> set xs" "y = (if id' x \<noteq> id' job then x else p x)"
    by (auto simp: set_notifyJobUpdate)
  show "payload y \<noteq> None"
  proof (cases "id' x = id' job")
    case False
    with x d act show ?thesis by auto
  next
    case True
    from c job have "count_id (id' job) xs \<le> 1" by blast
    from count_id_unique [OF this x(1) job(1) True] have "x = job" by simp
    with True x(2) job(2) pl show ?thesis by simp
  qed
qed

subsection \<open>The shape of each event\<close>

lemma find_SomeD: "find P xs = Some x \<Longrightarrow> x \<in> set xs \<and> P x"
  by (induction xs) (auto split: if_splits)

lemma tick_cases:
  obtains (idle) "scheduler_tick s = s"
  | (started) job where "job \<in> set (jobs s)" "status job = Queued"
      "id' job \<notin> set (runningJobs s)" "payload job \<noteq> None"
      "length (runningJobs s) < MAX_CONCURRENT_JOBS"
      "scheduler_tick s = s\<lparr>runningJobs := runningJobs s @ [id' job],
         jobs := notifyJobUpdate (id' job)
                   (\<lambda>j. j\<lparr>status := Running, attempts := attempts job + 1\<rparr>) (jobs s),
         executions := executions s @ [(job, AwaitProvider)]\<rparr>"
proof (cases "MAX_CONCURRENT_JOBS \<le> length (runningJobs s)")
  case True
  then have "scheduler_tick s = s" by (simp add: scheduler_tick_def)
  then show ?thesis by (rule idle)
next
  case False
  show ?thesis
  proof (cases "find (\<lambda>job. status job = Queued \<and> id' job \<notin> set (runningJobs s)) (jobs s)")
    case None
    with False have "scheduler_tick s = s" by (simp add: scheduler_tick_def)
    then show ?thesis by (rule idle)
  next
    case (Some job)
    then have job: "job \<in> set (jobs s)" "status job = Queued" "id' job \<notin> set (runningJobs s)"
      using find_SomeD [OF Some] by simp_all
    show ?thesis
    proof (cases "payload job = None")
      case True
      with False Some have "scheduler_tick s = s"
        by (simp add: scheduler_tick_def startJobExecution_def)
      then show ?thesis by (rule idle)
    next
      case no: False
      then obtain pl where "payload job = Some pl" by blast
      with False Some job(3) have "scheduler_tick s = s\<lparr>runningJobs := runningJobs s @ [id' job],
         jobs := notifyJobUpdate (id' job)
                   (\<lambda>j. j\<lparr>status := Running, attempts := attempts job + 1\<rparr>) (jobs s),
         executions := executions s @ [(job, AwaitProvider)]\<rparr>"
        by (simp add: scheduler_tick_def startJobExecution_def set_add_def)
      with job no False show ?thesis by (intro started) simp_all
    qed
  qed
qed

lemma execution_of_Some:
  assumes "execution_of i s = Some (job, ph)"
  shows "(job, ph) \<in> set (executions s)" and "id' job = i"
  using find_SomeD [of "\<lambda>(job, p). id' job = i" "executions s" "(job, ph)"] assms
  by (simp_all add: execution_of_def)

lemma settle_shape:
  "(\<exists>pl. handleGenerate_settle i (prepareJobPayload i flag base st en) xs = enqueueJob i pl xs) \<or>
   (\<exists>e. handleGenerate_settle i (prepareJobPayload i flag base st en) xs =
      notifyJobUpdate i (\<lambda>job. job\<lparr>status := Error, error := Some (message_or e ''Upload failed.'')\<rparr>) xs)"
proof (cases "snd (prepareJobPayload i flag base st en)")
  case None
  from pipeline_success_effect [OF this, of xs] show ?thesis by blast
next
  case (Some e)
  from pipeline_thrown_effect [OF this, of xs] show ?thesis by blast
qed

lemma persist_shape:
  "persistVideoAsset enc i fileName fetched body posted xs =
     notifyJobUpdate i (\<lambda>job. job\<lparr>saving := Some False, saved := Some True,
        localKey := Some fileName, localUrl := Some (''/assets/'' @ enc fileName),
        videoUrl := Some (''/assets/'' @ enc fileName), saveError := None\<rparr>) xs \<or>
   (\<exists>e. persistVideoAsset enc i fileName fetched body posted xs =
     notifyJobUpdate i (\<lambda>job. job\<lparr>saving := Some False, saved := Some False,
        saveError := Some (message_or e ''Unable to persist video locally.'')\<rparr>) xs)"
proof (cases "persist_failure fetched body posted")
  case None
  then show ?thesis by (simp add: persistVideoAsset_def Let_def)
next
  case (Some e)
  then have "persistVideoAsset enc i fileName fetched body posted xs =
     notifyJobUpdate i (\<lambda>job. job\<lparr>saving := Some False, saved := Some False,
        saveError := Some (message_or e ''Unable to persist video locally.'')\<rparr>) xs"
    by (simp add: persistVideoAsset_def)
  then show ?thesis by blast
qed

lemma set_set_phase:
  "x \<in> set (set_phase i ph xs) \<Longrightarrow>
     (id' (fst x) = i \<and> snd x = ph) \<or> (x \<in> set xs \<and> id' (fst x) \<noteq> i)"
  by (auto simp: set_phase_def split: if_splits)

lemma ids_set_phase: "map (\<lambda>x. id' (fst x)) (set_phase i ph xs) = map (\<lambda>x. id' (fst x)) xs"
  by (induction xs) (auto simp: set_phase_def)

lemma set_drop_execution:
  "x \<in> set (drop_execution i xs) \<longleftrightarrow> x \<in> set xs \<and> id' (fst x) \<noteq> i"
  by (auto simp: drop_execution_def)

lemma ids_drop_execution:
  "distinct (map (\<lambda>x. id' (fst x)) xs) \<Longrightarrow> distinct (map (\<lambda>x. id' (fst x)) (drop_execution i xs))"
  by (simp add: drop_execution_def distinct_map_filter)

subsection \<open>The invariant is kept\<close>

lemma page_invD:
  assumes "page_inv s"
  shows "distinct (runningJobs s)"
    and "length (runningJobs s) \<le> MAX_CONCURRENT_JOBS"
    and "running_ids (jobs s) \<subseteq> set (runningJobs s)"
    and "\<forall>job \<in> set (jobs s).
           payload job \<noteq> None \<or> id' job \<in> set (preparing s) \<longrightarrow> count_id (id' job) (jobs s) \<le> 1"
    and "\<forall>job \<in> set (jobs s). status job = Running \<or> status job = Queued \<longrightarrow> payload job \<noteq> None"
    and "\<forall>x \<in> set (executions s). id' (fst x) \<in> set (runningJobs s)"
    and "distinct (map (\<lambda>x. id' (fst x)) (executions s))"
    and "\<forall>x \<in> set (executions s). snd x \<noteq> AwaitProvider \<longrightarrow> id' (fst x) \<notin> running_ids (jobs s)"
  using assms unfolding page_inv_def by blast+

lemma page_invI:
  assumes "distinct (runningJobs s)"
    and "length (runningJobs s) \<le> MAX_CONCURRENT_JOBS"
    and "running_ids (jobs s) \<subseteq> set (runningJobs s)"
    and "\<forall>job \<in> set (jobs s).
           payload job \<noteq> None \<or> id' job \<in> set (preparing s) \<longrightarrow> count_id (id' job) (jobs s) \<le> 1"
    and "\<forall>job \<in> set (jobs s). status job = Running \<or> status job = Queued \<longrightarrow> payload job \<noteq> None"
    and "\<forall>x \<in> set (executions s). id' (fst x) \<in> set (runningJobs s)"
    and "distinct (map (\<lambda>x. id' (fst x)) (executions s))"
    and "\<forall>x \<in> set (executions s). snd x \<noteq> AwaitProvider \<longrightarrow> id' (fst x) \<notin> running_ids (jobs s)"
  shows "page_inv s"
  using assms unfolding page_inv_def by blast

text \<open>A patch that keeps the status, or sets one that is neither running nor queued.\<close>

lemma inv_passive_update:
  assumes inv: "page_inv s"
    and id: "\<And>x. id' (p x) = id' x" and pl: "\<And>x. payload (p x) = payload x"
    and st: "(\<forall>x. status (p x) = status x) \<or> (\<forall>x. status (p x) \<noteq> Running \<and> status (p x) \<noteq> Queued)"
    and s': "jobs s' = notifyJobUpdate i p (jobs s)" "set (preparing s') \<subseteq> set (preparing s)"
      "runningJobs s' = runningJobs s" "executions s' = executions s"
  shows "page_inv s'"
proof (rule page_invI)
  note I = page_invD [OF inv]
  have sub: "running_ids (jobs s') \<subseteq> running_ids (jobs s)"
    using st
  proof
    assume "\<forall>x. status (p x) = status x"
    then show ?thesis by (simp add: s'(1) running_ids_update_same id)
  next
    assume "\<forall>x. status (p x) \<noteq> Running \<and> status (p x) \<noteq> Queued"
    then show ?thesis by (simp add: s'(1) running_ids_update_stopped id)
  qed
  show "distinct (runningJobs s')" "length (runningJobs s') \<le> MAX_CONCURRENT_JOBS"
    using I(1,2) by (simp_all add: s'(3))
  show "running_ids (jobs s') \<subseteq> set (runningJobs s')"
    using sub I(3) by (simp add: s'(3))
  show "\<forall>job \<in> set (jobs s').
      payload job \<noteq> None \<or> id' job \<in> set (preparing s') \<longrightarrow> count_id (id' job) (jobs s') \<le> 1"
    unfolding s'(1) by (rule unique_kept_update [OF I(4) id _ s'(2)]) (simp add: pl)
  show "\<forall>job \<in> set (jobs s'). status job = Running \<or> status job = Queued \<longrightarrow> payload job \<noteq> None"
    unfolding s'(1) using st by (intro payload_kept_passive [OF I(5)]) (auto simp: pl)
  show "\<forall>x \<in> set (executions s'). id' (fst x) \<in> set (runningJobs s')"
    using I(6) by (simp add: s'(3,4))
  show "distinct (map (\<lambda>x. id' (fst x)) (executions s'))"
    using I(7) by (simp add: s'(4))
  show "\<forall>x \<in> set (executions s'). snd x \<noteq> AwaitProvider \<longrightarrow> id' (fst x) \<notin> running_ids (jobs s')"
    using I(8) sub by (auto simp: s'(4))
qed

lemma inv_enqueue:
  assumes inv: "page_inv s" and i: "i \<in> set (preparing s)"
    and s': "jobs s' = enqueueJob i pl (jobs s)" "set (preparing s') \<subseteq> set (preparing s)"
      "runningJobs s' = runningJobs s" "executions s' = executions s"
  shows "page_inv s'"
proof (rule page_invI)
  note I = page_invD [OF inv]
  have j: "jobs s' = notifyJobUpdate i (\<lambda>x. x\<lparr>status := Queued, payload := Some pl\<rparr>) (jobs s)"
    by (simp add: s'(1) enqueueJob_notify)
  have sub: "running_ids (jobs s') \<subseteq> running_ids (jobs s)"
    by (auto simp: s'(1) running_ids_enqueue)
  show "distinct (runningJobs s')" "length (runningJobs s') \<le> MAX_CONCURRENT_JOBS"
    using I(1,2) by (simp_all add: s'(3))
  show "running_ids (jobs s') \<subseteq> set (runningJobs s')"
    using sub I(3) by (simp add: s'(3))
  show "\<forall>job \<in> set (jobs s').
      payload job \<noteq> None \<or> id' job \<in> set (preparing s') \<longrightarrow> count_id (id' job) (jobs s') \<le> 1"
    unfolding j by (rule unique_kept_update [OF I(4) _ _ s'(2)]) (simp_all add: i)
  show "\<forall>job \<in> set (jobs s'). status job = Running \<or> status job = Queued \<longrightarrow> payload job \<noteq> None"
    unfolding j by (intro payload_kept_passive [OF I(5)]) simp_all
  show "\<forall>x \<in> set (executions s'). id' (fst x) \<in> set (runningJobs s')"
    using I(6) by (simp add: s'(3,4))
  show "distinct (map (\<lambda>x. id' (fst x)) (executions s'))"
    using I(7) by (simp add: s'(4))
  show "\<forall>x \<in> set (executions s'). snd x \<noteq> AwaitProvider \<longrightarrow> id' (fst x) \<notin> running_ids (jobs s')"
    using I(8) sub by (auto simp: s'(4))
qed

lemma inv_retry:
  assumes inv: "page_inv s" and job: "job \<in> set (jobs s)" "payload job \<noteq> None"
    and s': "jobs s' = notifyJobUpdate (id' job) (\<lambda>j. j\<lparr>status := Queued, error := None\<rparr>) (jobs s)"
      "preparing s' = preparing s" "runningJobs s' = runningJobs s" "executions s' = executions s"
  shows "page_inv s'"
proof (rule page_invI)
  note I = page_invD [OF inv]
  have sub: "running_ids (jobs s') \<subseteq> running_ids (jobs s)"
    by (simp add: s'(1) running_ids_update_stopped)
  show "distinct (runningJobs s')" "length (runningJobs s') \<le> MAX_CONCURRENT_JOBS"
    using I(1,2) by (simp_all add: s'(3))
  show "running_ids (jobs s') \<subseteq> set (runningJobs s')"
    using sub I(3) by (simp add: s'(3))
  show "\<forall>job \<in> set (jobs s').
      payload job \<noteq> None \<or> id' job \<in> set (preparing s') \<longrightarrow> count_id (id' job) (jobs s') \<le> 1"
    unfolding s'(1,2) by (rule unique_kept_update [OF I(4)]) simp_all
  show "\<forall>job \<in> set (jobs s'). status job = Running \<or> status job = Queued \<longrightarrow> payload job \<noteq> None"
    unfolding s'(1) by (rule payload_kept_active [OF I(4,5) job]) simp
  show "\<forall>x \<in> set (executions s'). id' (fst x) \<in> set (runningJobs s')"
    using I(6) by (simp add: s'(3,4))
  show "distinct (map (\<lambda>x. id' (fst x)) (executions s'))"
    using I(7) by (simp add: s'(4))
  show "\<forall>x \<in> set (executions s'). snd x \<noteq> AwaitProvider \<longrightarrow> id' (fst x) \<notin> running_ids (jobs s')"
    using I(8) sub by (auto simp: s'(4))
qed

lemma inv_submit:
  assumes inv: "page_inv s" and fresh: "id' new \<notin> id' ` set (jobs s)"
    and new: "status new = Uploading"
    and s': "jobs s' = new # jobs s" "preparing s' = preparing s @ [id' new]"
      "runningJobs s' = runningJobs s" "executions s' = executions s"
  shows "page_inv s'"
proof (rule page_invI)
  note I = page_invD [OF inv]
  have same: "running_ids (jobs s') = running_ids (jobs s)"
    by (simp add: s'(1) running_ids_Cons new)
  show "distinct (runningJobs s')" "length (runningJobs s') \<le> MAX_CONCURRENT_JOBS"
    using I(1,2) by (simp_all add: s'(3))
  show "running_ids (jobs s') \<subseteq> set (runningJobs s')"
    using same I(3) by (simp add: s'(3))
  show "\<forall>job \<in> set (jobs s').
      payload job \<noteq> None \<or> id' job \<in> set (preparing s') \<longrightarrow> count_id (id' job) (jobs s') \<le> 1"
    using unique_kept_Cons [OF I(4) fresh] by (simp add: s'(1,2))
  show "\<forall>job \<in> set (jobs s'). status job = Running \<or> status job = Queued \<longrightarrow> payload job \<noteq> None"
    using I(5) new by (simp add: s'(1))
  show "\<forall>x \<in> set (executions s'). id' (fst x) \<in> set (runningJobs s')"
    using I(6) by (simp add: s'(3,4))
  show "distinct (map (\<lambda>x. id' (fst x)) (executions s'))"
    using I(7) by (simp add: s'(4))
  show "\<forall>x \<in> set (executions s'). snd x \<noteq> AwaitProvider \<longrightarrow> id' (fst x) \<notin> running_ids (jobs s')"
    using I(8) same by (simp add: s'(4))
qed

lemma inv_start:
  assumes inv: "page_inv s" and job: "job \<in> set (jobs s)" "payload job \<noteq> None"
    and free: "id' job \<notin> set (runningJobs s)" "length (runningJobs s) < MAX_CONCURRENT_JOBS"
    and s': "jobs s' = notifyJobUpdate (id' job)
                (\<lambda>j. j\<lparr>status := Running, attempts := attempts job + 1\<rparr>) (jobs s)"
      "preparing s' = preparing s" "runningJobs s' = runningJobs s @ [id' job]"
      "executions s' = executions s @ [(job, AwaitProvider)]"
  shows "page_inv s'"
proof (rule page_invI)
  note I = page_invD [OF inv]
  have sub: "running_ids (jobs s') \<subseteq> insert (id' job) (running_ids (jobs s))"
    unfolding s'(1) by (rule running_ids_update_started) simp
  show "distinct (runningJobs s')" "length (runningJobs s') \<le> MAX_CONCURRENT_JOBS"
    using I(1) free by (simp_all add: s'(3))
  show "running_ids (jobs s') \<subseteq> set (runningJobs s')"
    using sub I(3) by (auto simp: s'(3))
  show "\<forall>job \<in> set (jobs s').
      payload job \<noteq> None \<or> id' job \<in> set (preparing s') \<longrightarrow> count_id (id' job) (jobs s') \<le> 1"
    unfolding s'(1,2) by (rule unique_kept_update [OF I(4)]) simp_all
  show "\<forall>job \<in> set (jobs s'). status job = Running \<or> status job = Queued \<longrightarrow> payload job \<noteq> None"
    unfolding s'(1) by (rule payload_kept_active [OF I(4,5) job]) simp
  show "\<forall>x \<in> set (executions s'). id' (fst x) \<in> set (runningJobs s')"
    using I(6) by (auto simp: s'(3,4))
  show "distinct (map (\<lambda>x. id' (fst x)) (executions s'))"
    using I(6,7) free(1) by (auto simp: s'(4))
  show "\<forall>x \<in> set (executions s'). snd x \<noteq> AwaitProvider \<longrightarrow> id' (fst x) \<notin> running_ids (jobs s')"
  proof (intro ballI impI)
    fix x assume x: "x \<in> set (executions s')" "snd x \<noteq> AwaitProvider"
    then have old: "x \<in> set (executions s)" by (auto simp: s'(4))
    with I(6) free(1) have "id' (fst x) \<noteq> id' job" by auto
    moreover from I(8) old x(2) have "id' (fst x) \<notin> running_ids (jobs s)" by blast
    ultimately show "id' (fst x) \<notin> running_ids (jobs s')" using sub by auto
  qed
qed

text \<open>An execution moves on to a later \<open>await\<close>, with a patch of its job.\<close>

lemma inv_phase:
  assumes inv: "page_inv s" and x: "(job, ph) \<in> set (executions s)" "id' job = i"
    and id: "\<And>x. id' (p x) = id' x" and pl: "\<And>x. payload (p x) = payload x"
    and st: "(\<forall>x. status (p x) \<noteq> Running \<and> status (p x) \<noteq> Queued) \<or>
             ((\<forall>x. status (p x) = status x) \<and> ph \<noteq> AwaitProvider)"
    and later: "ph' \<noteq> AwaitProvider"
    and s': "jobs s' = notifyJobUpdate i p (jobs s)" "preparing s' = preparing s"
      "runningJobs s' = runningJobs s" "executions s' = set_phase i ph' (executions s)"
  shows "page_inv s'"
proof (rule page_invI)
  note I = page_invD [OF inv]
  have sub: "running_ids (jobs s') \<subseteq> running_ids (jobs s)" and stopped: "i \<notin> running_ids (jobs s')"
  proof -
    from st show "running_ids (jobs s') \<subseteq> running_ids (jobs s)"
    proof
      assume "\<forall>x. status (p x) \<noteq> Running \<and> status (p x) \<noteq> Queued"
      then show ?thesis by (simp add: s'(1) running_ids_update_stopped id)
    next
      assume "(\<forall>x. status (p x) = status x) \<and> ph \<noteq> AwaitProvider"
      then show ?thesis by (simp add: s'(1) running_ids_update_same id)
    qed
    from st show "i \<notin> running_ids (jobs s')"
    proof
      assume "\<forall>x. status (p x) \<noteq> Running \<and> status (p x) \<noteq> Queued"
      then show ?thesis by (simp add: s'(1) running_ids_update_stopped id)
    next
      assume a: "(\<forall>x. status (p x) = status x) \<and> ph \<noteq> AwaitProvider"
      with I(8) x have "i \<notin> running_ids (jobs s)" by force
      with a show ?thesis by (simp add: s'(1) running_ids_update_same id)
    qed
  qed
  show "distinct (runningJobs s')" "length (runningJobs s') \<le> MAX_CONCURRENT_JOBS"
    using I(1,2) by (simp_all add: s'(3))
  show "running_ids (jobs s') \<subseteq> set (runningJobs s')"
    using sub I(3) by (simp add: s'(3))
  show "\<forall>job \<in> set (jobs s').
      payload job \<noteq> None \<or> id' job \<in> set (preparing s') \<longrightarrow> count_id (id' job) (jobs s') \<le> 1"
    unfolding s'(1,2) by (rule unique_kept_update [OF I(4) id]) (simp_all add: pl)
  show "\<forall>job \<in> set (jobs s'). status job = Running \<or> status job = Queued \<longrightarrow> payload job \<noteq> None"
    unfolding s'(1) using st by (intro payload_kept_passive [OF I(5)]) (auto simp: pl)
  show "\<forall>x \<in> set (executions s'). id' (fst x) \<in> set (runningJobs s')"
  proof
    fix y assume "y \<in> set (executions s')"
    then have "id' (fst y) \<in> set (map (\<lambda>x. id' (fst x)) (set_phase i ph' (executions s)))"
      by (simp add: s'(4))
    then have "id' (fst y) \<in> (\<lambda>x. id' (fst x)) ` set (executions s)"
      by (simp only: ids_set_phase set_map)
    with I(6) show "id' (fst y) \<in> set (runningJobs s')" by (auto simp: s'(3))
  qed
  show "distinct (map (\<lambda>x. id' (fst x)) (executions s'))"
    using I(7) by (simp add: s'(4) ids_set_phase)
  show "\<forall>x \<in> set (executions s'). snd x \<noteq> AwaitProvider \<longrightarrow> id' (fst x) \<notin> running_ids (jobs s')"
  proof (intro ballI impI)
    fix y assume y: "y \<in> set (executions s')" "snd y \<noteq> AwaitProvider"
    from y(1) have "(id' (fst y) = i \<and> snd y = ph') \<or> (y \<in> set (executions s) \<and> id' (fst y) \<noteq> i)"
      unfolding s'(4) by (rule set_set_phase)
    then show "id' (fst y) \<notin> running_ids (jobs s')"
    proof
      assume "id' (fst y) = i \<and> snd y = ph'"
      with stopped show ?thesis by simp
    next
      assume "y \<in> set (executions s) \<and> id' (fst y) \<noteq> i"
      with I(8) y(2) have "id' (fst y) \<notin> running_ids (jobs s)" by blast
      with sub show ?thesis by blast
    qed
  qed
qed

text \<open>An execution ends: its id leaves \<open>runningJobs\<close>.\<close>

lemma inv_end:
  assumes inv: "page_inv s"
    and id: "\<And>x. id' (p x) = id' x" and pl: "\<And>x. payload (p x) = payload x"
    and st: "(\<forall>x. status (p x) \<noteq> Running \<and> status (p x) \<noteq> Queued) \<or>
             ((\<forall>x. status (p x) = status x) \<and> i \<notin> running_ids (jobs s))"
    and s': "jobs s' = notifyJobUpdate i p (jobs s)" "preparing s' = preparing s"
      "runningJobs s' = set_delete i (runningJobs s)"
      "executions s' = drop_execution i (executions s)"
  shows "page_inv s'"
proof (rule page_invI)
  note I = page_invD [OF inv]
  have sub: "running_ids (jobs s') \<subseteq> running_ids (jobs s) - {i}"
    using st
  proof
    assume "\<forall>x. status (p x) \<noteq> Running \<and> status (p x) \<noteq> Queued"
    then show ?thesis by (simp add: s'(1) running_ids_update_stopped id)
  next
    assume "(\<forall>x. status (p x) = status x) \<and> i \<notin> running_ids (jobs s)"
    then show ?thesis by (auto simp: s'(1) running_ids_update_same id)
  qed
  show "distinct (runningJobs s')"
    using I(1) by (simp add: s'(3) set_delete_def distinct_removeAll)
  show "length (runningJobs s') \<le> MAX_CONCURRENT_JOBS"
    using le_trans [OF length_removeAll_less_eq I(2)] by (simp add: s'(3) set_delete_def)
  show "running_ids (jobs s') \<subseteq> set (runningJobs s')"
    using sub I(3) by (auto simp: s'(3) set_delete_def)
  show "\<forall>job \<in> set (jobs s').
      payload job \<noteq> None \<or> id' job \<in> set (preparing s') \<longrightarrow> count_id (id' job) (jobs s') \<le> 1"
    unfolding s'(1,2) by (rule unique_kept_update [OF I(4) id]) (simp_all add: pl)
  show "\<forall>job \<in> set (jobs s'). status job = Running \<or> status job = Queued \<longrightarrow> payload job \<noteq> None"
    unfolding s'(1) using st by (intro payload_kept_passive [OF I(5)]) (auto simp: pl)
  show "\<forall>x \<in> set (executions s'). id' (fst x) \<in> set (runningJobs s')"
    using I(6) by (auto simp: s'(3,4) set_drop_execution set_delete_def)
  show "distinct (map (\<lambda>x. id' (fst x)) (executions s'))"
    using I(7) by (simp add: s'(4) ids_drop_execution)
  show "\<forall>x \<in> set (executions s'). snd x \<noteq> AwaitProvider \<longrightarrow> id' (fst x) \<notin> running_ids (jobs s')"
    using I(8) sub by (auto simp: s'(4) set_drop_execution)
qed

lemma notifyJobUpdate_ident: "notifyJobUpdate i (\<lambda>x. x) xs = xs"
  by (simp add: notifyJobUpdate_def map_idI)

lemma page_inv_fire:
  assumes inv: "page_inv s" and f: "fire stamp enc e s = Some s'"
  shows "page_inv s'"
proof (cases e)
  case (Submit jobId model promptText now startPreview path)
  let ?new = "new_job jobId model promptText now startPreview path"
  from f Submit have fresh: "jobId \<notin> id' ` set (jobs s)"
    and s': "s' = s\<lparr>jobs := ?new # jobs s, preparing := preparing s @ [jobId]\<rparr>"
    by (auto split: if_splits)
  show ?thesis
    by (rule inv_submit [OF inv, where new = ?new]) (simp_all add: s' new_job_def fresh)
next
  case (PrepareSettled jobId endFrame basePayload startUpload endUpload)
  let ?xs = "handleGenerate_settle jobId
      (prepareJobPayload jobId endFrame basePayload startUpload endUpload) (jobs s)"
  from f PrepareSettled have i: "jobId \<in> set (preparing s)"
    and s': "s' = s\<lparr>jobs := ?xs, preparing := removeAll jobId (preparing s)\<rparr>"
    by (auto split: if_splits)
  from settle_shape [of jobId endFrame basePayload startUpload endUpload "jobs s"]
  show ?thesis
  proof
    assume "\<exists>pl. ?xs = enqueueJob jobId pl (jobs s)"
    then obtain pl where "?xs = enqueueJob jobId pl (jobs s)" ..
    then show ?thesis
      by (intro inv_enqueue [OF inv i, where pl = pl]) (auto simp: s')
  next
    assume "\<exists>e. ?xs = notifyJobUpdate jobId
      (\<lambda>job. job\<lparr>status := Error, error := Some (message_or e ''Upload failed.'')\<rparr>) (jobs s)"
    then obtain e where "?xs = notifyJobUpdate jobId
      (\<lambda>job. job\<lparr>status := Error, error := Some (message_or e ''Upload failed.'')\<rparr>) (jobs s)" ..
    then show ?thesis
      by (intro inv_passive_update [OF inv, where i = jobId and
            p = "\<lambda>job. job\<lparr>status := Error, error := Some (message_or e ''Upload failed.'')\<rparr>"])
        (auto simp: s')
  qed
next
  case Tick
  with f have s': "s' = scheduler_tick s" by simp
  show ?thesis
  proof (cases s rule: tick_cases)
    case idle
    with s' inv show ?thesis by simp
  next
    case (started job)
    show ?thesis
      by (rule inv_start [OF inv started(1,4,3,5)]) (simp_all add: s' started(6))
  qed
next
  case (ProviderEvent jobId ev)
  with f obtain job where s': "s' = execution_event job ev s"
    by (auto split: option.splits prod.splits phase.splits)
  show ?thesis
  proof (cases ev)
    case None
    with s' inv show ?thesis by (simp add: execution_event_def)
  next
    case (Some message)
    show ?thesis
      by (rule inv_passive_update [OF inv, where i = "id' job" and
            p = "\<lambda>prevJob. prevJob\<lparr>events := events prevJob @ [message]\<rparr>"])
        (simp_all add: s' Some execution_event_def)
  qed
next
  case (ProviderSettled jobId result)
  with f obtain job where x: "execution_of jobId s = Some (job, AwaitProvider)"
    by (auto split: option.splits prod.splits phase.splits)
  note mem = execution_of_Some [OF x]
  show ?thesis
  proof (cases result)
    case (Resolved r)
    obtain url rawData where r: "r = (url, rawData)" by (cases r)
    let ?name = "buildVideoFileName stamp
            \<lparr>fn_id = id' job, fn_modelId = modelId job, fn_createdAt = createdAt job,
             fn_storagePath = storagePath job\<rparr>"
    from f ProviderSettled x Resolved r have s': "s' = execution_resolved stamp job url rawData s"
      by simp
    show ?thesis
      by (rule inv_phase [OF inv mem(1) refl, where ph' = "AwaitPersist ?name url" and
            p = "\<lambda>j. j\<lparr>status := Success, videoUrl := Some url, raw := rawData,
                            saving := Some True, saved := Some False,
                            localKey := Some ?name, localUrl := None, saveError := None\<rparr>"])
        (simp_all add: s' execution_resolved_def Let_def)
  next
    case (Rejected err)
    with f ProviderSettled x have s': "s' = execution_rejected job err s" by simp
    show ?thesis
      by (rule inv_end [OF inv, where i = "id' job" and
            p = "\<lambda>j. j\<lparr>status := Error, error := Some (message_or err ''Generation failed.'')\<rparr>"])
        (simp_all add: s' execution_rejected_def)
  qed
next
  case (PersistSettled jobId fetched body posted)
  with f obtain job fileName url where x: "execution_of jobId s = Some (job, AwaitPersist fileName url)"
    and s': "s' = execution_persisted enc job fileName fetched body posted s"
    by (auto split: option.splits prod.splits phase.splits)
  note mem = execution_of_Some [OF x]
  from persist_shape [of enc "id' job" fileName fetched body posted "jobs s"]
  obtain p where p: "persistVideoAsset enc (id' job) fileName fetched body posted (jobs s)
      = notifyJobUpdate (id' job) p (jobs s)"
    and keep: "\<And>x. id' (p x) = id' x" "\<And>x. payload (p x) = payload x"
      "\<And>x. status (p x) = status x"
  proof
    assume a: "persistVideoAsset enc (id' job) fileName fetched body posted (jobs s) =
     notifyJobUpdate (id' job) (\<lambda>job. job\<lparr>saving := Some False, saved := Some True,
        localKey := Some fileName, localUrl := Some (''/assets/'' @ enc fileName),
        videoUrl := Some (''/assets/'' @ enc fileName), saveError := None\<rparr>) (jobs s)"
    show thesis by (rule that [OF a]) simp_all
  next
    assume "\<exists>e. persistVideoAsset enc (id' job) fileName fetched body posted (jobs s) =
     notifyJobUpdate (id' job) (\<lambda>job. job\<lparr>saving := Some False, saved := Some False,
        saveError := Some (message_or e ''Unable to persist video locally.'')\<rparr>) (jobs s)"
    then obtain e where a: "persistVideoAsset enc (id' job) fileName fetched body posted (jobs s) =
     notifyJobUpdate (id' job) (\<lambda>job. job\<lparr>saving := Some False, saved := Some False,
        saveError := Some (message_or e ''Unable to persist video locally.'')\<rparr>) (jobs s)" ..
    show thesis by (rule that [OF a]) simp_all
  qed
  show ?thesis
    by (rule inv_phase [OF inv mem(1) refl, where ph' = AwaitFinally and p = p])
      (simp_all add: s' execution_persisted_def p keep)
next
  case (ExecutionFinally jobId)
  with f obtain job where x: "execution_of jobId s = Some (job, AwaitFinally)"
    and s': "s' = execution_finally job s"
    by (auto split: option.splits prod.splits phase.splits)
  note mem = execution_of_Some [OF x]
  from page_invD(8) [OF inv] mem(1) have "id' job \<notin> running_ids (jobs s)" by force
  then show ?thesis
    by (intro inv_end [OF inv, where i = "id' job" and p = "\<lambda>x. x"])
      (simp_all add: s' execution_finally_def notifyJobUpdate_ident)
next
  case (RetryClicked n)
  with f have n: "n < length (jobs s)" "retry_offered (jobs s ! n)"
    and s': "s' = s\<lparr>jobs := handleRetry (jobs s ! n) (jobs s)\<rparr>"
    by (auto split: if_splits)
  from n(2) have pl: "payload (jobs s ! n) \<noteq> None" by (simp add: retry_offered_def)
  then obtain y where y: "payload (jobs s ! n) = Some y" by blast
  show ?thesis
    by (rule inv_retry [OF inv nth_mem [OF n(1)] pl]) (simp_all add: s' handleRetry_def y)
qed

subsection \<open>The bound on the running jobs\<close>

lemma stored_jobs_fields:
  assumes "job \<in> set (loadStoredJobs env storage)"
  shows "status job = Success" "attempts job = 1" "payload job = None"
    "saving job = Some False" "saved job = Some True"
proof -
  from loadStoredJobs_member [OF assms] obtain k entry where "rehydrate env k entry = Some job"
    by blast
  from rehydrate_fields(1-5) [OF this]
  show "status job = Success" "attempts job = 1" "payload job = None"
    "saving job = Some False" "saved job = Some True"
    by simp_all
qed

lemma page_inv_initial: "page_inv (initial_page env storage)"
proof (rule page_invI)
  have st: "\<forall>job \<in> set (loadStoredJobs env storage). status job = Success \<and> payload job = None"
    using stored_jobs_fields by blast
  then show "running_ids (jobs (initial_page env storage)) \<subseteq> set (runningJobs (initial_page env storage))"
    by (auto simp: initial_page_def running_ids_iff)
  from st show "\<forall>job \<in> set (jobs (initial_page env storage)).
      payload job \<noteq> None \<or> id' job \<in> set (preparing (initial_page env storage)) \<longrightarrow>
      count_id (id' job) (jobs (initial_page env storage)) \<le> 1"
    by (simp add: initial_page_def)
  from st show "\<forall>job \<in> set (jobs (initial_page env storage)).
      status job = Running \<or> status job = Queued \<longrightarrow> payload job \<noteq> None"
    by (auto simp: initial_page_def)
qed (simp_all add: initial_page_def)

lemma reachable_page_inv:
  assumes "reachable stamp enc (initial_page env storage) s"
  shows "page_inv s"
  using assms
proof (induction rule: reachable.induct)
  case start
  show ?case by (rule page_inv_initial)
next
  case (step s e s')
  from step.IH step.hyps(2) show ?case by (rule page_inv_fire)
qed

lemma running_count_le:
  assumes "page_inv s"
  shows "running_count s \<le> length (runningJobs s)"
proof -
  note I = page_invD [OF assms]
  let ?R = "filter (\<lambda>job. status job = Running) (jobs s)"
  from I(4,5) have "\<forall>x \<in> set (jobs s). status x = Running \<longrightarrow> count_id (id' x) (jobs s) \<le> 1"
    by blast
  then have d: "distinct (map id' ?R)" by (rule distinct_ids_filter)
  have "set (map id' ?R) = running_ids (jobs s)" by (auto simp: running_ids_def)
  with I(3) have sub: "set (map id' ?R) \<subseteq> set (runningJobs s)" by simp
  have "running_count s = length (map id' ?R)" by (simp add: running_count_def)
  also from d have "\<dots> = card (set (map id' ?R))" by (simp only: distinct_card)
  also from sub have "\<dots> \<le> card (set (runningJobs s))" by (intro card_mono) simp_all
  also have "\<dots> \<le> length (runningJobs s)" by (rule card_length)
  finally show ?thesis .
qed

lemma running_after_update:
  "length (filter (\<lambda>job. status job = Running) (notifyJobUpdate i p xs))
    \<le> length (filter (\<lambda>job. status job = Running) xs) + count_id i xs"
  by (induction xs) (simp_all add: notifyJobUpdate_def count_id_Cons)

lemma tick_full: "MAX_CONCURRENT_JOBS \<le> length (runningJobs s) \<Longrightarrow> scheduler_tick s = s"
  by (simp add: scheduler_tick_def)

lemma tick_starts_one:
  assumes "page_inv s"
  shows "running_count (scheduler_tick s) \<le> running_count s + 1"
    and "length (executions (scheduler_tick s)) \<le> length (executions s) + 1"
proof -
  note I = page_invD [OF assms]
  show "running_count (scheduler_tick s) \<le> running_count s + 1"
  proof (cases s rule: tick_cases)
    case idle
    then show ?thesis by simp
  next
    case (started job)
    from I(4) started(1,4) have one: "count_id (id' job) (jobs s) \<le> 1" by blast
    have "running_count (scheduler_tick s) \<le> running_count s + count_id (id' job) (jobs s)"
      unfolding started(6) running_count_def
      using running_after_update [of "id' job"
          "\<lambda>j. j\<lparr>status := Running, attempts := attempts job + 1\<rparr>" "jobs s"]
      by simp
    with one show ?thesis by simp
  qed
  show "length (executions (scheduler_tick s)) \<le> length (executions s) + 1"
    by (cases s rule: tick_cases) simp_all
qed

lemma run_reachable:
  assumes "run stamp enc es s = Some s'" and "reachable stamp enc s0 s"
  shows "reachable stamp enc s0 s'"
  using assms
proof (induction es arbitrary: s)
  case Nil
  then show ?case by simp
next
  case (Cons e es)
  from Cons.prems(1) obtain s1 where s1: "fire stamp enc e s = Some s1" "run stamp enc es s1 = Some s'"
    by (auto split: option.splits)
  from Cons.prems(2) s1(1) have "reachable stamp enc s0 s1" by (rule reachable.step)
  with s1(2) show ?case by (rule Cons.IH)
qed

text \<open>
  C1: in every page that the scheduler reaches from a start page (the stored jobs, nothing in
  flight), at most \<open>MAX_CONCURRENT_JOBS = 2\<close> jobs have the status \<open>Running\<close>. A run of the
  scheduler effect does nothing when \<open>runningJobs\<close> has two or more members, and otherwise
  starts at most one execution and raises the number of running jobs by at most one.
\<close>

theorem C1_running_bound:
  "reachable stamp enc (initial_page env storage) s \<longrightarrow>
     running_count s \<le> MAX_CONCURRENT_JOBS \<and> MAX_CONCURRENT_JOBS = 2 \<and>
     (MAX_CONCURRENT_JOBS \<le> length (runningJobs s) \<longrightarrow> scheduler_tick s = s) \<and>
     running_count (scheduler_tick s) \<le> running_count s + 1 \<and>
     length (executions (scheduler_tick s)) \<le> length (executions s) + 1 \<and>
     running_count (scheduler_tick s) \<le> MAX_CONCURRENT_JOBS"
proof
  assume r: "reachable stamp enc (initial_page env storage) s"
  then have inv: "page_inv s" by (rule reachable_page_inv)
  have "fire stamp enc Tick s = Some (scheduler_tick s)" by simp
  with r have "reachable stamp enc (initial_page env storage) (scheduler_tick s)"
    by (rule reachable.step)
  then have inv': "page_inv (scheduler_tick s)" by (rule reachable_page_inv)
  from running_count_le [OF inv] page_invD(2) [OF inv]
  have "running_count s \<le> MAX_CONCURRENT_JOBS" by simp
  moreover from running_count_le [OF inv'] page_invD(2) [OF inv']
  have "running_count (scheduler_tick s) \<le> MAX_CONCURRENT_JOBS" by simp
  moreover have "MAX_CONCURRENT_JOBS = 2" by (simp add: MAX_CONCURRENT_JOBS_def)
  moreover have "MAX_CONCURRENT_JOBS \<le> length (runningJobs s) \<longrightarrow> scheduler_tick s = s"
    by (simp add: tick_full)
  ultimately show "running_count s \<le> MAX_CONCURRENT_JOBS \<and> MAX_CONCURRENT_JOBS = 2 \<and>
     (MAX_CONCURRENT_JOBS \<le> length (runningJobs s) \<longrightarrow> scheduler_tick s = s) \<and>
     running_count (scheduler_tick s) \<le> running_count s + 1 \<and>
     length (executions (scheduler_tick s)) \<le> length (executions s) + 1 \<and>
     running_count (scheduler_tick s) \<le> MAX_CONCURRENT_JOBS"
    using tick_starts_one [OF inv] by blast
qed


lemma sample_stored:
  "loadStoredJobs sample_browser (sample_storage ''<stored index>'') = [sample_stored_job]"
  by code_simp

lemma sample_initial:
  "initial_page sample_browser (sample_storage ''<stored index>'') = sample_start"
  by (simp add: initial_page_def sample_start_def sample_stored)

lemma sample_run_defined:
  "run number_to_string plain_encode sample_events sample_start \<noteq> None"
  by code_simp

lemma sample_run_jobs:
  "map (\<lambda>job. (id' job, status job, attempts job))
     (jobs (the (run number_to_string plain_encode sample_events sample_start)))
   = [(''job_c'', Running, 1), (''job_b'', Running, 1), (''job_a'', Queued, 0),
      (''job_1699999999999_k3x9qa'', Success, 1)]"
  by code_simp

lemma sample_run_reachable:
  "reachable number_to_string plain_encode
     (initial_page sample_browser (sample_storage ''<stored index>''))
     (the (run number_to_string plain_encode sample_events sample_start))"
proof -
  from sample_run_defined obtain s where
    s: "run number_to_string plain_encode sample_events sample_start = Some s"
    by blast
  have "reachable number_to_string plain_encode sample_start sample_start"
    by (rule reachable.start)
  with s have "reachable number_to_string plain_encode sample_start s"
    by (rule run_reachable)
  with s show ?thesis by (simp add: sample_initial)
qed

theorem C1_running_bound_witness:
  "reachable number_to_string plain_encode
     (initial_page sample_browser (sample_storage ''<stored index>''))
     (the (run number_to_string plain_encode sample_events sample_start)) \<and>
   running_count (the (run number_to_string plain_encode sample_events sample_start)) = 2 \<and>
   running_count (the (run number_to_string plain_encode sample_events sample_start))
     \<le> MAX_CONCURRENT_JOBS \<and>
   scheduler_tick (the (run number_to_string plain_encode sample_events sample_start))
     = the (run number_to_string plain_encode sample_events sample_start)"
proof -
  let ?s = "the (run number_to_string plain_encode sample_events sample_start)"
  note t = C1_running_bound [of number_to_string plain_encode sample_browser
      "sample_storage ''<stored index>''" ?s]
  have two: "running_count ?s = 2" by code_simp
  have full: "MAX_CONCURRENT_JOBS \<le> length (runningJobs ?s)" by code_simp
  from t sample_run_reachable have "running_count ?s \<le> MAX_CONCURRENT_JOBS" by blast
  moreover from t sample_run_reachable full have "scheduler_tick ?s = ?s" by blast
  ultimately show ?thesis using sample_run_reachable two by blast
qed

subsection \<open>The attempt counter\<close>


lemma fst_set_phase: "fst ` set (set_phase i ph xs) \<subseteq> fst ` set xs"
  by (force simp: set_phase_def split: if_splits)

lemma fst_drop_execution: "fst ` set (drop_execution i xs) \<subseteq> fst ` set xs"
  by (force simp: drop_execution_def)

lemma fire_shape:
  assumes f: "fire stamp enc e s = Some s'"
  obtains (submit) jobId model promptText now startPreview path where
      "e = Submit jobId model promptText now startPreview path"
      "jobId \<notin> id' ` set (jobs s)"
      "jobs s' = new_job jobId model promptText now startPreview path # jobs s"
      "preparing s' = preparing s @ [jobId]" "executions s' = executions s"
  | (update) i p where "jobs s' = notifyJobUpdate i p (jobs s)"
      "\<And>x. id' (p x) = id' x" "\<And>x. attempts (p x) = attempts x"
      "\<And>x. status (p x) = Running \<Longrightarrow> status x = Running"
      "i \<in> set (preparing s) \<or> i \<in> (\<lambda>x. id' (fst x)) ` set (executions s) \<or>
         (\<exists>job \<in> set (jobs s). payload job \<noteq> None \<and> id' job = i)"
      "set (preparing s') \<subseteq> set (preparing s)"
      "fst ` set (executions s') \<subseteq> fst ` set (executions s)"
  | (same) "jobs s' = jobs s" "preparing s' = preparing s"
      "fst ` set (executions s') \<subseteq> fst ` set (executions s)"
  | (started) job where "e = Tick" "job \<in> set (jobs s)" "status job = Queued"
      "payload job \<noteq> None" "id' job \<notin> set (runningJobs s)"
      "jobs s' = notifyJobUpdate (id' job)
         (\<lambda>j. j\<lparr>status := Running, attempts := attempts job + 1\<rparr>) (jobs s)"
      "preparing s' = preparing s" "executions s' = executions s @ [(job, AwaitProvider)]"
proof (cases e)
  case (Submit jobId model promptText now startPreview path)
  with f have "jobId \<notin> id' ` set (jobs s)"
    and "s' = s\<lparr>jobs := new_job jobId model promptText now startPreview path # jobs s,
           preparing := preparing s @ [jobId]\<rparr>"
    by (auto split: if_splits)
  with Submit show ?thesis by (intro submit) simp_all
next
  case (PrepareSettled jobId endFrame basePayload startUpload endUpload)
  let ?xs = "handleGenerate_settle jobId
      (prepareJobPayload jobId endFrame basePayload startUpload endUpload) (jobs s)"
  from f PrepareSettled have i: "jobId \<in> set (preparing s)"
    and s': "s' = s\<lparr>jobs := ?xs, preparing := removeAll jobId (preparing s)\<rparr>"
    by (auto split: if_splits)
  from settle_shape [of jobId endFrame basePayload startUpload endUpload "jobs s"]
  show ?thesis
  proof
    assume "\<exists>pl. ?xs = enqueueJob jobId pl (jobs s)"
    then obtain pl where "?xs = enqueueJob jobId pl (jobs s)" ..
    then have "jobs s' = notifyJobUpdate jobId
        (\<lambda>x. x\<lparr>status := Queued, payload := Some pl\<rparr>) (jobs s)"
      by (simp add: s' enqueueJob_notify)
    then show ?thesis by (rule update) (simp_all add: s' i)
  next
    assume "\<exists>e. ?xs = notifyJobUpdate jobId
      (\<lambda>job. job\<lparr>status := Error, error := Some (message_or e ''Upload failed.'')\<rparr>) (jobs s)"
    then obtain err where "?xs = notifyJobUpdate jobId
      (\<lambda>job. job\<lparr>status := Error, error := Some (message_or err ''Upload failed.'')\<rparr>) (jobs s)" ..
    then have "jobs s' = notifyJobUpdate jobId
      (\<lambda>job. job\<lparr>status := Error, error := Some (message_or err ''Upload failed.'')\<rparr>) (jobs s)"
      by (simp add: s')
    then show ?thesis by (rule update) (simp_all add: s' i)
  qed
next
  case Tick
  with f have s': "s' = scheduler_tick s" by simp
  show ?thesis
  proof (cases s rule: tick_cases)
    case idle
    with s' show ?thesis by (intro same) simp_all
  next
    case (started job)
    with Tick show ?thesis
      by (intro that(4) [of job]) (simp_all add: s')
  qed
next
  case (ProviderEvent jobId ev)
  with f obtain job where x: "execution_of jobId s = Some (job, AwaitProvider)"
    and s': "s' = execution_event job ev s"
    by (auto split: option.splits prod.splits phase.splits)
  note mem = execution_of_Some [OF x]
  from mem(1) have ex: "id' job \<in> (\<lambda>x. id' (fst x)) ` set (executions s)" by force
  show ?thesis
  proof (cases ev)
    case None
    with s' show ?thesis by (intro same) (simp_all add: execution_event_def)
  next
    case (Some message)
    with s' have "jobs s' = notifyJobUpdate (id' job)
        (\<lambda>prevJob. prevJob\<lparr>events := events prevJob @ [message]\<rparr>) (jobs s)"
      by (simp add: execution_event_def)
    then show ?thesis
      by (rule update) (simp_all add: s' Some execution_event_def ex)
  qed
next
  case (ProviderSettled jobId result)
  with f obtain job where x: "execution_of jobId s = Some (job, AwaitProvider)"
    by (auto split: option.splits prod.splits phase.splits)
  note mem = execution_of_Some [OF x]
  from mem(1) have ex: "id' job \<in> (\<lambda>x. id' (fst x)) ` set (executions s)" by force
  show ?thesis
  proof (cases result)
    case (Resolved r)
    obtain url rawData where r: "r = (url, rawData)" by (cases r)
    from f ProviderSettled x Resolved r have s': "s' = execution_resolved stamp job url rawData s"
      by simp
    let ?name = "buildVideoFileName stamp
            \<lparr>fn_id = id' job, fn_modelId = modelId job, fn_createdAt = createdAt job,
             fn_storagePath = storagePath job\<rparr>"
    have "jobs s' = notifyJobUpdate (id' job)
        (\<lambda>j. j\<lparr>status := Success, videoUrl := Some url, raw := rawData,
                saving := Some True, saved := Some False,
                localKey := Some ?name, localUrl := None, saveError := None\<rparr>) (jobs s)"
      by (simp add: s' execution_resolved_def Let_def)
    then show ?thesis
      by (rule update) (simp_all add: s' execution_resolved_def Let_def fst_set_phase ex)
  next
    case (Rejected err)
    with f ProviderSettled x have s': "s' = execution_rejected job err s" by simp
    have "jobs s' = notifyJobUpdate (id' job)
        (\<lambda>j. j\<lparr>status := Error, error := Some (message_or err ''Generation failed.'')\<rparr>) (jobs s)"
      by (simp add: s' execution_rejected_def)
    then show ?thesis
      by (rule update) (simp_all add: s' execution_rejected_def fst_drop_execution ex)
  qed
next
  case (PersistSettled jobId fetched body posted)
  with f obtain job fileName url where x: "execution_of jobId s = Some (job, AwaitPersist fileName url)"
    and s': "s' = execution_persisted enc job fileName fetched body posted s"
    by (auto split: option.splits prod.splits phase.splits)
  note mem = execution_of_Some [OF x]
  from persist_shape [of enc "id' job" fileName fetched body posted "jobs s"]
  obtain p where p: "persistVideoAsset enc (id' job) fileName fetched body posted (jobs s)
      = notifyJobUpdate (id' job) p (jobs s)"
    and keep: "\<And>x. id' (p x) = id' x" "\<And>x. attempts (p x) = attempts x"
      "\<And>x. status (p x) = status x"
  proof
    assume a: "persistVideoAsset enc (id' job) fileName fetched body posted (jobs s) =
     notifyJobUpdate (id' job) (\<lambda>job. job\<lparr>saving := Some False, saved := Some True,
        localKey := Some fileName, localUrl := Some (''/assets/'' @ enc fileName),
        videoUrl := Some (''/assets/'' @ enc fileName), saveError := None\<rparr>) (jobs s)"
    show thesis by (rule that [OF a]) simp_all
  next
    assume "\<exists>e. persistVideoAsset enc (id' job) fileName fetched body posted (jobs s) =
     notifyJobUpdate (id' job) (\<lambda>job. job\<lparr>saving := Some False, saved := Some False,
        saveError := Some (message_or e ''Unable to persist video locally.'')\<rparr>) (jobs s)"
    then obtain e where a: "persistVideoAsset enc (id' job) fileName fetched body posted (jobs s) =
     notifyJobUpdate (id' job) (\<lambda>job. job\<lparr>saving := Some False, saved := Some False,
        saveError := Some (message_or e ''Unable to persist video locally.'')\<rparr>) (jobs s)" ..
    show thesis by (rule that [OF a]) simp_all
  qed
  have "jobs s' = notifyJobUpdate (id' job) p (jobs s)"
    by (simp add: s' execution_persisted_def p)
  then show ?thesis using keep(1,2)
  proof (rule update)
    show "\<And>x. status (p x) = Running \<Longrightarrow> status x = Running" by (simp add: keep(3))
    show "id' job \<in> set (preparing s) \<or> id' job \<in> (\<lambda>x. id' (fst x)) ` set (executions s) \<or>
         (\<exists>j \<in> set (jobs s). payload j \<noteq> None \<and> id' j = id' job)"
      using mem(1) by force
    show "set (preparing s') \<subseteq> set (preparing s)" by (simp add: s' execution_persisted_def)
    show "fst ` set (executions s') \<subseteq> fst ` set (executions s)"
      by (simp add: s' execution_persisted_def fst_set_phase)
  qed
next
  case (ExecutionFinally jobId)
  with f obtain job where s': "s' = execution_finally job s"
    by (auto split: option.splits prod.splits phase.splits)
  then show ?thesis by (intro same) (simp_all add: execution_finally_def fst_drop_execution)
next
  case (RetryClicked n)
  with f have n: "n < length (jobs s)" "retry_offered (jobs s ! n)"
    and s': "s' = s\<lparr>jobs := handleRetry (jobs s ! n) (jobs s)\<rparr>"
    by (auto split: if_splits)
  from n(2) obtain y where y: "payload (jobs s ! n) = Some y" by (auto simp: retry_offered_def)
  have "jobs s' = notifyJobUpdate (id' (jobs s ! n))
      (\<lambda>j. j\<lparr>status := Queued, error := None\<rparr>) (jobs s)"
    by (simp add: s' handleRetry_def y)
  then show ?thesis
  proof (rule update)
    show "id' (jobs s ! n) \<in> set (preparing s) \<or>
        id' (jobs s ! n) \<in> (\<lambda>x. id' (fst x)) ` set (executions s) \<or>
        (\<exists>job \<in> set (jobs s). payload job \<noteq> None \<and> id' job = id' (jobs s ! n))"
      using nth_mem [OF n(1)] y by auto
  qed (simp_all add: s')
qed

lemma attempts_kept:
  assumes "\<And>x. attempts (p x) = attempts x"
    and "\<And>x. status (p x) = Running \<Longrightarrow> status x = Running"
    and "n < length xs"
  shows "attempts (notifyJobUpdate i p xs ! n) =
    (if status (notifyJobUpdate i p xs ! n) = Running \<and> status (xs ! n) \<noteq> Running
     then attempts (xs ! n) + 1 else attempts (xs ! n))"
proof (cases "id' (xs ! n) = i")
  case True
  with assms(3) have eq: "notifyJobUpdate i p xs ! n = p (xs ! n)"
    by (simp add: notifyJobUpdate_nth)
  have a: "attempts (p (xs ! n)) = attempts (xs ! n)" by (rule assms(1))
  have b: "status (p (xs ! n)) = Running \<Longrightarrow> status (xs ! n) = Running" by (rule assms(2))
  from a b show ?thesis unfolding eq by auto
next
  case False
  with assms(3) have "notifyJobUpdate i p xs ! n = xs ! n" by (simp add: notifyJobUpdate_nth)
  then show ?thesis by simp
qed

lemma attempts_started:
  assumes one: "count_id (id' job) xs \<le> 1" and job: "job \<in> set xs" "status job = Queued"
    and n: "n < length xs"
  shows "attempts (notifyJobUpdate (id' job)
            (\<lambda>j. j\<lparr>status := Running, attempts := attempts job + 1\<rparr>) xs ! n) =
    (if status (notifyJobUpdate (id' job)
            (\<lambda>j. j\<lparr>status := Running, attempts := attempts job + 1\<rparr>) xs ! n) = Running \<and>
        status (xs ! n) \<noteq> Running
     then attempts (xs ! n) + 1 else attempts (xs ! n))"
proof (cases "id' (xs ! n) = id' job")
  case True
  from count_id_unique [OF one nth_mem [OF n] job(1) True] have "xs ! n = job" by simp
  with n job(2) show ?thesis by (simp add: notifyJobUpdate_nth)
next
  case False
  with n show ?thesis by (simp add: notifyJobUpdate_nth)
qed

text \<open>
  C7: take a page the scheduler has reached and an event that happens there. A submission
  puts a new job with attempt counter 0 in front of the list and leaves the other jobs as
  they are. Every other event keeps the length of the list and the id at each position, and
  for the job at each position: if the event makes it enter \<open>Running\<close>, its attempt counter
  is the old one plus one; otherwise its attempt counter is the old one. So the counter grows
  by exactly one at each execution start, and enqueueing, retry, success, error and
  persistence leave it alone.
\<close>

theorem C7_attempts:
  "reachable stamp enc (initial_page env storage) s \<and> fire stamp enc e s = Some s' \<longrightarrow>
     (\<exists>jobId model promptText now startPreview path.
        e = Submit jobId model promptText now startPreview path \<and>
        jobs s' = new_job jobId model promptText now startPreview path # jobs s \<and>
        attempts (new_job jobId model promptText now startPreview path) = 0 \<and>
        status (new_job jobId model promptText now startPreview path) = Uploading) \<or>
     (length (jobs s') = length (jobs s) \<and>
      (\<forall>n < length (jobs s).
         id' (jobs s' ! n) = id' (jobs s ! n) \<and>
         attempts (jobs s' ! n) =
           (if status (jobs s' ! n) = Running \<and> status (jobs s ! n) \<noteq> Running
            then attempts (jobs s ! n) + 1 else attempts (jobs s ! n))))"
proof
  assume "reachable stamp enc (initial_page env storage) s \<and> fire stamp enc e s = Some s'"
  then have r: "reachable stamp enc (initial_page env storage) s"
    and f: "fire stamp enc e s = Some s'"
    by simp_all
  note I = page_invD [OF reachable_page_inv [OF r]]
  let ?kept = "length (jobs s') = length (jobs s) \<and>
      (\<forall>n < length (jobs s).
         id' (jobs s' ! n) = id' (jobs s ! n) \<and>
         attempts (jobs s' ! n) =
           (if status (jobs s' ! n) = Running \<and> status (jobs s ! n) \<noteq> Running
            then attempts (jobs s ! n) + 1 else attempts (jobs s ! n)))"
  from f show "(\<exists>jobId model promptText now startPreview path.
        e = Submit jobId model promptText now startPreview path \<and>
        jobs s' = new_job jobId model promptText now startPreview path # jobs s \<and>
        attempts (new_job jobId model promptText now startPreview path) = 0 \<and>
        status (new_job jobId model promptText now startPreview path) = Uploading) \<or> ?kept"
  proof (cases rule: fire_shape)
    case (submit jobId model promptText now startPreview path)
    then show ?thesis by (simp add: new_job_def)
  next
    case (update i p)
    have ?kept
    proof (intro conjI allI impI)
      show "length (jobs s') = length (jobs s)" by (simp add: update(1))
    next
      fix n assume n: "n < length (jobs s)"
      then show "id' (jobs s' ! n) = id' (jobs s ! n)"
        by (simp add: update(1,2) notifyJobUpdate_nth)
      from n show "attempts (jobs s' ! n) =
           (if status (jobs s' ! n) = Running \<and> status (jobs s ! n) \<noteq> Running
            then attempts (jobs s ! n) + 1 else attempts (jobs s ! n))"
        unfolding update(1)
      proof (rule attempts_kept [rotated 2])
        show "\<And>x. attempts (p x) = attempts x" by (rule update(3))
        show "\<And>x. status (p x) = Running \<Longrightarrow> status x = Running" by (rule update(4))
      qed
    qed
    then show ?thesis ..
  next
    case same
    then have ?kept by simp
    then show ?thesis ..
  next
    case (started job)
    from I(4) started(2,4) have one: "count_id (id' job) (jobs s) \<le> 1" by blast
    have ?kept
    proof (intro conjI allI impI)
      show "length (jobs s') = length (jobs s)" by (simp add: started(6))
    next
      fix n assume n: "n < length (jobs s)"
      then show "id' (jobs s' ! n) = id' (jobs s ! n)"
        by (simp add: started(6) notifyJobUpdate_nth)
      from n show "attempts (jobs s' ! n) =
           (if status (jobs s' ! n) = Running \<and> status (jobs s ! n) \<noteq> Running
            then attempts (jobs s ! n) + 1 else attempts (jobs s ! n))"
        unfolding started(6) by (rule attempts_started [OF one started(2,3), rotated -1])
    qed
    then show ?thesis ..
  qed
qed

lemma sample_queued_reachable:
  "reachable number_to_string plain_encode
     (initial_page sample_browser (sample_storage ''<stored index>'')) sample_queued"
proof -
  have "run number_to_string plain_encode (take 6 sample_events) sample_start \<noteq> None"
    by code_simp
  then obtain s where
    s: "run number_to_string plain_encode (take 6 sample_events) sample_start = Some s"
    by blast
  have "reachable number_to_string plain_encode sample_start sample_start"
    by (rule reachable.start)
  with s have "reachable number_to_string plain_encode sample_start s"
    by (rule run_reachable)
  with s show ?thesis by (simp add: sample_initial sample_queued_def)
qed

theorem C7_attempts_witness:
  "reachable number_to_string plain_encode
     (initial_page sample_browser (sample_storage ''<stored index>'')) sample_queued \<and>
   fire number_to_string plain_encode Tick sample_queued = Some (scheduler_tick sample_queued) \<and>
   map status (jobs sample_queued) = [Queued, Queued, Queued, Success] \<and>
   map status (jobs (scheduler_tick sample_queued)) = [Running, Queued, Queued, Success] \<and>
   attempts (jobs (scheduler_tick sample_queued) ! 0) = attempts (jobs sample_queued ! 0) + 1 \<and>
   attempts (jobs (scheduler_tick sample_queued) ! 1) = attempts (jobs sample_queued ! 1) \<and>
   attempts (jobs (scheduler_tick sample_queued) ! 3) = attempts (jobs sample_queued ! 3)"
proof -
  let ?s = sample_queued
  let ?s' = "scheduler_tick sample_queued"
  have f: "fire number_to_string plain_encode Tick ?s = Some ?s'" by simp
  have before: "map status (jobs ?s) = [Queued, Queued, Queued, Success]" by code_simp
  have after: "map status (jobs ?s') = [Running, Queued, Queued, Success]" by code_simp
  have len: "length (jobs ?s) = 4" by code_simp
  have b: "status (jobs ?s ! 0) = Queued" by code_simp
  have a: "status (jobs ?s' ! 0) = Running" "status (jobs ?s' ! 1) = Queued"
    "status (jobs ?s' ! 3) = Success"
    by code_simp+
  from C7_attempts [of number_to_string plain_encode sample_browser
      "sample_storage ''<stored index>''" ?s Tick ?s'] sample_queued_reachable f
  have kept: "\<forall>n < length (jobs ?s). attempts (jobs ?s' ! n) =
      (if status (jobs ?s' ! n) = Running \<and> status (jobs ?s ! n) \<noteq> Running
       then attempts (jobs ?s ! n) + 1 else attempts (jobs ?s ! n))"
    by blast
  from kept len a(1) b have "attempts (jobs ?s' ! 0) = attempts (jobs ?s ! 0) + 1" by simp
  moreover from kept len a(2) have "attempts (jobs ?s' ! 1) = attempts (jobs ?s ! 1)" by simp
  moreover from kept len a(3) have "attempts (jobs ?s' ! 3) = attempts (jobs ?s ! 3)" by simp
  ultimately show ?thesis using sample_queued_reachable f before after by blast
qed


subsection \<open>Rehydrated jobs in the scheduler\<close>


lemma notify_append_stored:
  assumes "i \<notin> id' ` set stored"
  shows "notifyJobUpdate i p (news @ stored) = notifyJobUpdate i p news @ stored"
proof -
  from assms have "map (\<lambda>x. if id' x \<noteq> i then x else p x) stored = stored"
    by (intro map_idI) auto
  then show ?thesis by (simp add: notifyJobUpdate_def)
qed

lemma ids_notify:
  assumes "\<And>x. id' (p x) = id' x"
  shows "id' ` set (notifyJobUpdate i p xs) = id' ` set xs"
proof -
  have "map id' (notifyJobUpdate i p xs) = map id' xs"
    by (rule notifyJobUpdate_map_same) (rule assms)
  then have "set (map id' (notifyJobUpdate i p xs)) = set (map id' xs)" by simp
  then show ?thesis by (simp only: set_map)
qed

lemma keeps_stored_initial: "keeps_stored (jobs s) (s\<lparr>preparing := [], executions := []\<rparr>)"
  unfolding keeps_stored_def by (intro exI [of _ "[]"]) simp

lemma keeps_stored_fire:
  assumes st: "\<forall>j \<in> set stored. status j = Success \<and> payload j = None"
    and k: "keeps_stored stored s" and f: "fire stamp enc e s = Some s'"
  shows "keeps_stored stored s'"
proof -
  from k obtain news where news: "jobs s = news @ stored"
    and disj: "id' ` set news \<inter> id' ` set stored = {}"
    and prep: "set (preparing s) \<subseteq> id' ` set news"
    and exec: "\<forall>x \<in> set (executions s). fst x \<notin> set stored \<and> id' (fst x) \<in> id' ` set news"
    unfolding keeps_stored_def by blast
  have active: "job \<in> set news" if "job \<in> set (jobs s)" "payload job \<noteq> None \<or> status job \<noteq> Success"
    for job using that st news by auto
  from f show ?thesis
  proof (cases rule: fire_shape)
    case (submit jobId model promptText now startPreview path)
    let ?new = "new_job jobId model promptText now startPreview path"
    have idn: "id' ?new = jobId" by (simp add: new_job_def)
    from submit(2) news have fresh: "jobId \<notin> id' ` set news" "jobId \<notin> id' ` set stored"
      by auto
    show ?thesis unfolding keeps_stored_def
    proof (intro exI [of _ "?new # news"] conjI)
      show "jobs s' = (?new # news) @ stored" by (simp add: submit(3) news)
      show "id' ` set (?new # news) \<inter> id' ` set stored = {}"
        using disj fresh(2) by (simp add: idn)
      show "set (preparing s') \<subseteq> id' ` set (?new # news)"
        using prep by (auto simp: submit(4) idn)
      show "\<forall>x \<in> set (executions s'). fst x \<notin> set stored \<and> id' (fst x) \<in> id' ` set (?new # news)"
        using exec by (simp add: submit(5))
    qed
  next
    case (update i p)
    have i: "i \<in> id' ` set news"
      using update(5)
    proof (elim disjE)
      assume "i \<in> set (preparing s)"
      with prep show ?thesis by blast
    next
      assume "i \<in> (\<lambda>x. id' (fst x)) ` set (executions s)"
      with exec show ?thesis by auto
    next
      assume "\<exists>job \<in> set (jobs s). payload job \<noteq> None \<and> id' job = i"
      then obtain job where "job \<in> set (jobs s)" "payload job \<noteq> None" "id' job = i" by blast
      with active [of job] show ?thesis by auto
    qed
    with disj have out: "i \<notin> id' ` set stored" by blast
    have ids: "id' ` set (notifyJobUpdate i p news) = id' ` set news"
      by (rule ids_notify) (rule update(2))
    show ?thesis unfolding keeps_stored_def
    proof (intro exI [of _ "notifyJobUpdate i p news"] conjI)
      show "jobs s' = notifyJobUpdate i p news @ stored"
        by (simp add: update(1) news notify_append_stored [OF out])
      show "id' ` set (notifyJobUpdate i p news) \<inter> id' ` set stored = {}"
        using disj by (simp only: ids)
      show "set (preparing s') \<subseteq> id' ` set (notifyJobUpdate i p news)"
        using prep update(6) by (simp only: ids)
      show "\<forall>x \<in> set (executions s').
          fst x \<notin> set stored \<and> id' (fst x) \<in> id' ` set (notifyJobUpdate i p news)"
      proof
        fix x assume "x \<in> set (executions s')"
        with update(7) obtain y where "y \<in> set (executions s)" "fst y = fst x" by force
        with exec show "fst x \<notin> set stored \<and> id' (fst x) \<in> id' ` set (notifyJobUpdate i p news)"
          by (simp only: ids) metis
      qed
    qed
  next
    case same
    show ?thesis unfolding keeps_stored_def
    proof (intro exI [of _ news] conjI)
      show "jobs s' = news @ stored" by (simp add: same(1) news)
      show "id' ` set news \<inter> id' ` set stored = {}" by (rule disj)
      show "set (preparing s') \<subseteq> id' ` set news" using prep by (simp add: same(2))
      show "\<forall>x \<in> set (executions s'). fst x \<notin> set stored \<and> id' (fst x) \<in> id' ` set news"
      proof
        fix x assume "x \<in> set (executions s')"
        with same(3) obtain y where "y \<in> set (executions s)" "fst y = fst x" by force
        with exec show "fst x \<notin> set stored \<and> id' (fst x) \<in> id' ` set news" by metis
      qed
    qed
  next
    case (started job)
    let ?p = "\<lambda>j. j\<lparr>status := Running, attempts := attempts job + 1\<rparr>"
    from started(2,3) active [of job] have jn: "job \<in> set news" by simp
    with st started(3) have js: "job \<notin> set stored" by auto
    from jn have i: "id' job \<in> id' ` set news" by blast
    with disj have out: "id' job \<notin> id' ` set stored" by blast
    have ids: "id' ` set (notifyJobUpdate (id' job) ?p news) = id' ` set news"
      by (rule ids_notify) simp
    show ?thesis unfolding keeps_stored_def
    proof (intro exI [of _ "notifyJobUpdate (id' job) ?p news"] conjI)
      show "jobs s' = notifyJobUpdate (id' job) ?p news @ stored"
        by (simp add: started(6) news notify_append_stored [OF out])
      show "id' ` set (notifyJobUpdate (id' job) ?p news) \<inter> id' ` set stored = {}"
        using disj by (simp only: ids)
      show "set (preparing s') \<subseteq> id' ` set (notifyJobUpdate (id' job) ?p news)"
        using prep by (simp only: ids started(7))
      show "\<forall>x \<in> set (executions s').
          fst x \<notin> set stored \<and> id' (fst x) \<in> id' ` set (notifyJobUpdate (id' job) ?p news)"
        using exec js i by (simp only: ids started(8)) auto
    qed
  qed
qed

lemma reachable_keeps_stored:
  assumes "reachable stamp enc (initial_page env storage) s"
  shows "keeps_stored (loadStoredJobs env storage) s"
  using assms
proof (induction rule: reachable.induct)
  case start
  have "keeps_stored (jobs (initial_page env storage))
      ((initial_page env storage)\<lparr>preparing := [], executions := []\<rparr>)"
    by (rule keeps_stored_initial)
  then show ?case by (simp add: initial_page_def)
next
  case (step s e s')
  have "\<forall>j \<in> set (loadStoredJobs env storage). status j = Success \<and> payload j = None"
    using stored_jobs_fields by blast
  from this step.IH step.hyps(2) show ?case by (rule keeps_stored_fire)
qed

text \<open>
  C10: every job that \<open>loadStoredJobs\<close> returns has status \<open>Success\<close>, attempt counter 1,
  \<open>saved\<close> true, \<open>saving\<close> false and no payload; the retry button is not offered for it and
  \<open>handleRetry\<close> does nothing for it. In every page the scheduler reaches from the start
  page, the rehydrated jobs are still the end of the job list, unchanged; retry cannot
  happen at their positions; the job the scheduler effect selects is never one of them; and
  no execution in flight was started with one of them.
\<close>

theorem C10_rehydrated_jobs:
  "(job \<in> set (loadStoredJobs env storage) \<longrightarrow>
      status job = Success \<and> attempts job = 1 \<and> saved job = Some True \<and>
      saving job = Some False \<and> payload job = None \<and>
      \<not> retry_offered job \<and> handleRetry job xs = xs) \<and>
   (reachable stamp enc (initial_page env storage) s \<longrightarrow>
      (\<exists>news. jobs s = news @ loadStoredJobs env storage \<and>
         (\<forall>n < length (jobs s). length news \<le> n \<longrightarrow>
            fire stamp enc (RetryClicked n) s = None)) \<and>
      (\<forall>nextJob.
         find (\<lambda>job. status job = Queued \<and> id' job \<notin> set (runningJobs s)) (jobs s) = Some nextJob
           \<longrightarrow> nextJob \<notin> set (loadStoredJobs env storage)) \<and>
      (\<forall>x \<in> set (executions s). fst x \<notin> set (loadStoredJobs env storage)))"
proof (rule conjI; rule impI)
  assume "job \<in> set (loadStoredJobs env storage)"
  from stored_jobs_fields [OF this]
  show "status job = Success \<and> attempts job = 1 \<and> saved job = Some True \<and>
      saving job = Some False \<and> payload job = None \<and>
      \<not> retry_offered job \<and> handleRetry job xs = xs"
    by (simp add: retry_offered_def handleRetry_def)
next
  let ?stored = "loadStoredJobs env storage"
  assume "reachable stamp enc (initial_page env storage) s"
  then have "keeps_stored ?stored s" by (rule reachable_keeps_stored)
  then obtain news where news: "jobs s = news @ ?stored"
    and exec: "\<forall>x \<in> set (executions s). fst x \<notin> set ?stored"
    unfolding keeps_stored_def by blast
  have st: "\<forall>j \<in> set ?stored. status j = Success \<and> payload j = None"
    using stored_jobs_fields by blast
  have "\<forall>n < length (jobs s). length news \<le> n \<longrightarrow> fire stamp enc (RetryClicked n) s = None"
  proof (intro allI impI)
    fix n assume n: "n < length (jobs s)" "length news \<le> n"
    then have "jobs s ! n = ?stored ! (n - length news)" "n - length news < length ?stored"
      by (simp_all add: news nth_append)
    then have "jobs s ! n \<in> set ?stored" by simp
    with st have "\<not> retry_offered (jobs s ! n)" by (simp add: retry_offered_def)
    then show "fire stamp enc (RetryClicked n) s = None" by simp
  qed
  with news have a: "\<exists>news. jobs s = news @ ?stored \<and>
      (\<forall>n < length (jobs s). length news \<le> n \<longrightarrow> fire stamp enc (RetryClicked n) s = None)"
    by blast
  have b: "\<forall>nextJob.
      find (\<lambda>job. status job = Queued \<and> id' job \<notin> set (runningJobs s)) (jobs s) = Some nextJob
        \<longrightarrow> nextJob \<notin> set ?stored"
  proof (intro allI impI)
    fix nextJob
    assume "find (\<lambda>job. status job = Queued \<and> id' job \<notin> set (runningJobs s)) (jobs s) = Some nextJob"
    from find_SomeD [OF this] have "status nextJob = Queued" by simp
    with st show "nextJob \<notin> set ?stored" by auto
  qed
  from a b exec show "(\<exists>news. jobs s = news @ ?stored \<and>
         (\<forall>n < length (jobs s). length news \<le> n \<longrightarrow>
            fire stamp enc (RetryClicked n) s = None)) \<and>
      (\<forall>nextJob.
         find (\<lambda>job. status job = Queued \<and> id' job \<notin> set (runningJobs s)) (jobs s) = Some nextJob
           \<longrightarrow> nextJob \<notin> set ?stored) \<and>
      (\<forall>x \<in> set (executions s). fst x \<notin> set ?stored)"
    by blast
qed

theorem C10_rehydrated_jobs_witness:
  "sample_stored_job \<in> set (loadStoredJobs sample_browser (sample_storage ''<stored index>'')) \<and>
   status sample_stored_job = Success \<and> attempts sample_stored_job = 1 \<and>
   payload sample_stored_job = None \<and>
   handleRetry sample_stored_job [sample_stored_job] = [sample_stored_job] \<and>
   reachable number_to_string plain_encode
     (initial_page sample_browser (sample_storage ''<stored index>''))
     (the (run number_to_string plain_encode sample_events sample_start)) \<and>
   jobs (the (run number_to_string plain_encode sample_events sample_start)) ! 3
     = sample_stored_job \<and>
   fire number_to_string plain_encode (RetryClicked 3)
     (the (run number_to_string plain_encode sample_events sample_start)) = None \<and>
   length (executions (the (run number_to_string plain_encode sample_events sample_start))) = 2 \<and>
   sample_stored_job
     \<notin> fst ` set (executions (the (run number_to_string plain_encode sample_events sample_start)))"
proof -
  let ?st = "sample_storage ''<stored index>''"
  let ?s = "the (run number_to_string plain_encode sample_events sample_start)"
  have mem: "sample_stored_job \<in> set (loadStoredJobs sample_browser ?st)"
    by (simp add: sample_stored)
  note t = C10_rehydrated_jobs [of sample_stored_job sample_browser ?st "[sample_stored_job]"
      number_to_string plain_encode ?s]
  from t mem have fields: "status sample_stored_job = Success \<and> attempts sample_stored_job = 1 \<and>
      payload sample_stored_job = None \<and>
      handleRetry sample_stored_job [sample_stored_job] = [sample_stored_job]"
    by blast
  from t sample_run_reachable obtain news where
    news: "jobs ?s = news @ loadStoredJobs sample_browser ?st"
      "\<forall>n < length (jobs ?s). length news \<le> n \<longrightarrow>
         fire number_to_string plain_encode (RetryClicked n) ?s = None"
    and exec: "\<forall>x \<in> set (executions ?s). fst x \<notin> set (loadStoredJobs sample_browser ?st)"
    by blast
  have len: "length (jobs ?s) = 4" by code_simp
  with news(1) have ln: "length news = 3" by (simp add: sample_stored)
  from news(1) ln have third: "jobs ?s ! 3 = sample_stored_job"
    using nth_append_length [of news sample_stored_job "[]"] by (simp add: sample_stored)
  from news(2) len ln have retry: "fire number_to_string plain_encode (RetryClicked 3) ?s = None"
    by simp
  have two: "length (executions ?s) = 2" by code_simp
  from exec have "sample_stored_job \<notin> fst ` set (executions ?s)"
    by (auto simp: sample_stored)
  with mem fields sample_run_reachable third retry two show ?thesis by blast
qed


end
